theory Spec2Isabelle
  imports Main
begin

section \<open>Data model (src/storage.js)\<close>

text \<open>
  The store is the parsed content of the data file: the task list in file order, the next
  id and the last-active pointer. Timestamps are ISO strings in the source
  (\<^verbatim>\<open>new Date().toISOString()\<close>); they are modelled by the instant they denote, in
  milliseconds, so that \<^verbatim>\<open>new Date(a) - new Date(b)\<close> is a subtraction and the string
  comparison \<^verbatim>\<open>a >= b\<close> of two ISO strings is \<open>\<le>\<close> on instants. A field that is
  absent, \<^verbatim>\<open>null\<close> or \<^verbatim>\<open>undefined\<close> is \<open>None\<close>. JavaScript numbers are
  modelled by \<open>int\<close> (ids, seconds and milliseconds stay far below 2^53).
\<close>

datatype status = Created | Running | Paused | Stopped

record session =
  startTime :: int
  endTime :: "int option"
  duration :: int

record task =
  task_id :: int
  name :: string
  url :: string
  status :: status
  sessions :: "session list"
  totalTime :: int
  createdAt :: int
  lastStarted :: "int option"
  lastPaused :: "int option"
  stoppedAt :: "int option"

record store =
  tasks :: "task list"
  nextId :: int
  lastActiveTaskId :: "int option"

text \<open>
  The \<^verbatim>\<open>Error\<close>s thrown by src/taskManager.js, one constructor per message, and the
  \<^verbatim>\<open>TypeError\<close> of reading a field of \<^verbatim>\<open>null\<close>.
\<close>

datatype error =
    TaskNotFound int
  | AlreadyRunning
  | NotRunning
  | NoActiveSession
  | NotStopped
  | NameRequired
  | NullTypeError

subsection \<open>Storage operations\<close>

text \<open>\<^verbatim>\<open>Array.prototype.findIndex\<close>: the first index whose element satisfies the test.\<close>

fun findIndex :: "('a \<Rightarrow> bool) \<Rightarrow> 'a list \<Rightarrow> nat option" where
  "findIndex p [] = None"
| "findIndex p (x # xs) = (if p x then Some 0 else map_option Suc (findIndex p xs))"

text \<open>
  \<^verbatim>\<open>getTask(id)\<close>: \<^verbatim>\<open>data.tasks.find(task => task.id === parseInt(id))\<close>. The callers
  modelled here pass the numeric \<^verbatim>\<open>task.id\<close>, on which \<^verbatim>\<open>parseInt\<close> is the identity.
\<close>

definition getTask :: "int \<Rightarrow> store \<Rightarrow> task option" where
  "getTask taskId s = find (\<lambda>t. task_id t = taskId) (tasks s)"

text \<open>
  \<^verbatim>\<open>updateTask(id, updates)\<close>: merges the updates into the first record with that id and
  returns the merged record, or returns \<^verbatim>\<open>null\<close> and writes nothing.
\<close>

definition updateTask :: "int \<Rightarrow> (task \<Rightarrow> task) \<Rightarrow> store \<Rightarrow> task option \<times> store" where
  "updateTask taskId updates s =
     (case findIndex (\<lambda>t. task_id t = taskId) (tasks s) of
        None \<Rightarrow> (None, s)
      | Some i \<Rightarrow>
          (let t' = updates (tasks s ! i)
           in (Some t', s\<lparr>tasks := (tasks s)[i := t']\<rparr>)))"

definition getAllTasks :: "store \<Rightarrow> task list" where
  "getAllTasks s = tasks s"

definition getTasksByStatus :: "status \<Rightarrow> store \<Rightarrow> task list" where
  "getTasksByStatus st s = filter (\<lambda>t. status t = st) (tasks s)"

definition setLastActiveTask :: "int \<Rightarrow> store \<Rightarrow> store" where
  "setLastActiveTask taskId s = s\<lparr>lastActiveTaskId := Some taskId\<rparr>"


text \<open>\<^verbatim>\<open>storage.createTask(name, url)\<close>, called at clock reading \<open>now\<close>.\<close>

definition storage_createTask :: "int \<Rightarrow> string \<Rightarrow> string \<Rightarrow> store \<Rightarrow> task \<times> store" where
  "storage_createTask now nm u s =
     (let newTask = \<lparr>task_id = nextId s, name = nm, url = u, status = Created,
                      sessions = [], totalTime = 0, createdAt = now,
                      lastStarted = None, lastPaused = None, stoppedAt = None\<rparr>
      in (newTask, s\<lparr>tasks := tasks s @ [newTask], nextId := nextId s + 1\<rparr>))"

section \<open>Lifecycle engine (src/taskManager.js)\<close>

text \<open>
  \<^verbatim>\<open>String.prototype.trim\<close> on the characters a \<open>char\<close> can hold: the ASCII white
  space and the no-break space.
\<close>

definition isWhiteSpace :: "char \<Rightarrow> bool" where
  "isWhiteSpace c = (c \<in> {CHR 0x20, CHR 0x09, CHR 0x0A, CHR 0x0B, CHR 0x0C, CHR 0x0D, CHR 0xA0})"

definition trim :: "string \<Rightarrow> string" where
  "trim str = rev (dropWhile isWhiteSpace (rev (dropWhile isWhiteSpace str)))"

text \<open>
  Every operation returns its result together with the store it leaves behind: an
  exception leaves the store as it was at the \<^verbatim>\<open>throw\<close>. The result of a successful
  operation is what \<^verbatim>\<open>storage.updateTask\<close> returned (\<open>None\<close> for \<^verbatim>\<open>null\<close>).
\<close>

definition createTask :: "int \<Rightarrow> string \<Rightarrow> string \<Rightarrow> store \<Rightarrow> (error + task) \<times> store" where
  "createTask now nm u s =
     (if nm = [] \<or> trim nm = [] then (Inl NameRequired, s)
      else (case storage_createTask now (trim nm) (trim u) s of (t, s') \<Rightarrow> (Inr t, s')))"

text \<open>\<^verbatim>\<open>pauseTask(taskId)\<close>; \<open>now\<close> is its one reading of the clock (line 57).\<close>

definition pauseTask :: "int \<Rightarrow> int \<Rightarrow> store \<Rightarrow> (error + task option) \<times> store" where
  "pauseTask now taskId s =
     (case getTask taskId s of
        None \<Rightarrow> (Inl (TaskNotFound taskId), s)
      | Some t \<Rightarrow>
          if status t \<noteq> Running then (Inl NotRunning, s)
          else if sessions t \<noteq> [] \<and> endTime (last (sessions t)) = None then
            (let currentSession = last (sessions t);
                 d = (now - startTime currentSession) div 1000;
                 sessions' = butlast (sessions t) @ [currentSession\<lparr>endTime := Some now, duration := d\<rparr>];
                 total = totalTime t + d;
                 s1 = setLastActiveTask taskId s
             in (case updateTask taskId
                        (\<lambda>u. u\<lparr>status := Paused, sessions := sessions', totalTime := total,
                                lastPaused := Some now\<rparr>) s1 of
                   (r, s2) \<Rightarrow> (Inr r, s2)))
          else (Inl NoActiveSession, s))"

text \<open>
  The \<^verbatim>\<open>forEach\<close> of \<^verbatim>\<open>startTask\<close> over the snapshot \<^verbatim>\<open>runningTasks\<close>: every entry
  whose id differs from the target is paused; the first exception ends the loop. Each
  successful pause reads the clock once: \<open>clk k\<close> is the \<open>k\<close>-th reading of the call, and
  the loop returns how many it made.
\<close>

fun pauseRunning :: "(nat \<Rightarrow> int) \<Rightarrow> nat \<Rightarrow> int \<Rightarrow> task list \<Rightarrow> store \<Rightarrow> (error + nat) \<times> store" where
  "pauseRunning clk k taskId [] s = (Inr k, s)"
| "pauseRunning clk k taskId (runningTask # rest) s =
     (if task_id runningTask \<noteq> taskId then
        (case pauseTask (clk k) (task_id runningTask) s of
           (Inl e, s') \<Rightarrow> (Inl e, s')
         | (Inr _, s') \<Rightarrow> pauseRunning clk (Suc k) taskId rest s')
      else pauseRunning clk k taskId rest s)"

definition startTask :: "(nat \<Rightarrow> int) \<Rightarrow> int \<Rightarrow> store \<Rightarrow> (error + task option) \<times> store" where
  "startTask clk taskId s =
     (case getTask taskId s of
        None \<Rightarrow> (Inl (TaskNotFound taskId), s)
      | Some t \<Rightarrow>
          if status t = Running then (Inl AlreadyRunning, s)
          else
            (case pauseRunning clk 0 taskId (getTasksByStatus Running s) s of
               (Inl e, s') \<Rightarrow> (Inl e, s')
             | (Inr k, s') \<Rightarrow>
                 (let now = clk k;
                      newSession = \<lparr>startTime = now, endTime = None, duration = 0\<rparr>;
                      updatedSessions = sessions t @ [newSession];
                      s1 = setLastActiveTask taskId s'
                  in (case updateTask taskId
                             (\<lambda>u. u\<lparr>status := Running, sessions := updatedSessions,
                                     lastStarted := Some now\<rparr>) s1 of
                        (r, s2) \<Rightarrow> (Inr r, s2)))))"

text \<open>
  \<^verbatim>\<open>stopTask(taskId)\<close>: a running task is paused first (clock reading \<open>clk 0\<close>), and
  \<^verbatim>\<open>stoppedAt\<close> is the next reading.
\<close>

definition stopTask :: "(nat \<Rightarrow> int) \<Rightarrow> int \<Rightarrow> store \<Rightarrow> (error + task option) \<times> store" where
  "stopTask clk taskId s =
     (case getTask taskId s of
        None \<Rightarrow> (Inl (TaskNotFound taskId), s)
      | Some t \<Rightarrow>
          if status t = Running then
            (case pauseTask (clk 0) taskId s of
               (Inl e, s') \<Rightarrow> (Inl e, s')
             | (Inr _, s') \<Rightarrow>
                 (case updateTask taskId (\<lambda>u. u\<lparr>status := Stopped, stoppedAt := Some (clk 1)\<rparr>) s' of
                    (r, s2) \<Rightarrow> (Inr r, s2)))
          else
            (case updateTask taskId (\<lambda>u. u\<lparr>status := Stopped, stoppedAt := Some (clk 0)\<rparr>) s of
               (r, s2) \<Rightarrow> (Inr r, s2)))"

definition unstopTask :: "int \<Rightarrow> store \<Rightarrow> (error + task option) \<times> store" where
  "unstopTask taskId s =
     (case getTask taskId s of
        None \<Rightarrow> (Inl (TaskNotFound taskId), s)
      | Some t \<Rightarrow>
          if status t \<noteq> Stopped then (Inl NotStopped, s)
          else
            (case updateTask taskId (\<lambda>u. u\<lparr>status := Paused, stoppedAt := None\<rparr>) s of
               (r, s2) \<Rightarrow> (Inr r, s2)))"

section \<open>Task query layer (src/taskManager.js)\<close>

text \<open>Decimal text of a number, as a template literal prints an integer.\<close>

definition digitChar :: "nat \<Rightarrow> char" where
  "digitChar d = char_of (48 + d)"

function showNat :: "nat \<Rightarrow> string" where
  "showNat n = (if n < 10 then [digitChar n] else showNat (n div 10) @ [digitChar (n mod 10)])"
  by pat_completeness auto
termination
  by (relation "measure (\<lambda>n. n)") auto

definition showInt :: "int \<Rightarrow> string" where
  "showInt i = (if i < 0 then CHR ''-'' # showNat (nat (- i)) else showNat (nat i))"

text \<open>The remainder operator \<^verbatim>\<open>%\<close> of JavaScript takes the sign of the dividend.\<close>

definition jsRem :: "int \<Rightarrow> int \<Rightarrow> int" where
  "jsRem a b = (if 0 \<le> a then a mod b else - ((- a) mod b))"

definition formatDuration :: "int \<Rightarrow> string" where
  "formatDuration seconds =
     (let hours = seconds div 3600;
          minutes = (jsRem seconds 3600) div 60;
          secs = jsRem seconds 60
      in if hours > 0 then showInt hours @ ''h '' @ showInt minutes @ ''m '' @ showInt secs @ ''s''
         else if minutes > 0 then showInt minutes @ ''m '' @ showInt secs @ ''s''
         else showInt secs @ ''s'')"

text \<open>
  The object built by \<^verbatim>\<open>getTaskSummary\<close>. Its \<^verbatim>\<open>totalTime\<close> is the formatted text, its
  \<^verbatim>\<open>totalTimeSeconds\<close> the number. (The fields carry the prefix \<open>s\<close> where the task record
  already has the name.)
\<close>

record taskSummary =
  sId :: int
  sName :: string
  sUrl :: string
  sStatus :: status
  sTotalTime :: string
  totalTimeSeconds :: int
  sCreatedAt :: int
  sLastStarted :: "int option"
  sLastPaused :: "int option"
  sStoppedAt :: "int option"
  sessionCount :: nat

definition getTaskSummary :: "task \<Rightarrow> taskSummary" where
  "getTaskSummary t =
     \<lparr>sId = task_id t, sName = name t, sUrl = url t, sStatus = status t,
      sTotalTime = formatDuration (totalTime t), totalTimeSeconds = totalTime t,
      sCreatedAt = createdAt t, sLastStarted = lastStarted t, sLastPaused = lastPaused t,
      sStoppedAt = stoppedAt t, sessionCount = length (sessions t)\<rparr>"





text \<open>\<^verbatim>\<open>getCurrentRunningTime(task)\<close> on a summary, at clock reading \<open>now\<close>.\<close>

definition getCurrentRunningTime :: "int \<Rightarrow> taskSummary \<Rightarrow> int" where
  "getCurrentRunningTime now task =
     (case sLastStarted task of
        None \<Rightarrow> 0
      | Some started \<Rightarrow>
          if sStatus task \<noteq> Running then 0
          else totalTimeSeconds task + (now - started) div 1000)"

text \<open>
  The filter of \<^verbatim>\<open>getTodaysTasks\<close>. \<open>todayStart\<close> is the local midnight that the
  source computes from the clock (\<^verbatim>\<open>today.setHours(0, 0, 0, 0)\<close>).
\<close>

definition sinceToday :: "int \<Rightarrow> int option \<Rightarrow> bool" where
  "sinceToday todayStart stamp = (case stamp of None \<Rightarrow> False | Some x \<Rightarrow> todayStart \<le> x)"

definition workedToday :: "int \<Rightarrow> task \<Rightarrow> bool" where
  "workedToday todayStart t =
     (if sinceToday todayStart (lastStarted t) then True
      else if sinceToday todayStart (lastPaused t) then True
      else if sessions t \<noteq> [] then
        list_ex (\<lambda>se. todayStart \<le> startTime se \<or> sinceToday todayStart (endTime se)) (sessions t)
      else False)"

definition getTodaysTasks :: "int \<Rightarrow> store \<Rightarrow> taskSummary list" where
  "getTodaysTasks todayStart s = map getTaskSummary (filter (workedToday todayStart) (getAllTasks s))"

section \<open>String helpers of the command loops\<close>

text \<open>
  Strings are lists of characters with code points 0 to 255 (Latin-1).
  \<^verbatim>\<open>toLowerCase\<close> on these: the capital letters are A to Z and the code points
  192 to 222 without 215 (the multiplication sign), and the small letter of each is
  32 code points higher; every other character is kept.
\<close>

definition isUpperCode :: "nat \<Rightarrow> bool" where
  "isUpperCode n = ((65 \<le> n \<and> n \<le> 90) \<or> (192 \<le> n \<and> n \<le> 214) \<or> (216 \<le> n \<and> n \<le> 222))"

definition lowerChar :: "char \<Rightarrow> char" where
  "lowerChar c = (let n = (of_char c :: nat) in if isUpperCode n then char_of (n + 32) else c)"

definition toLowerCase :: "string \<Rightarrow> string" where
  "toLowerCase str = map lowerChar str"

fun startsWith :: "'a list \<Rightarrow> 'a list \<Rightarrow> bool" where
  "startsWith ys [] = True"
| "startsWith [] (x # xs) = False"
| "startsWith (y # ys) (x # xs) = (x = y \<and> startsWith ys xs)"

text \<open>\<^verbatim>\<open>str.includes(sub)\<close>: \<open>sub\<close> occurs in \<open>str\<close> at some position.\<close>

fun includesStr :: "'a list \<Rightarrow> 'a list \<Rightarrow> bool" where
  "includesStr [] sub = (sub = [])"
| "includesStr (y # ys) sub = (startsWith (y # ys) sub \<or> includesStr ys sub)"



text \<open>The test \<^verbatim>\<open>/^\d+$/\<close> and \<^verbatim>\<open>parseInt\<close> on a string that passes it.\<close>

definition isDigit :: "char \<Rightarrow> bool" where
  "isDigit c = (let n = (of_char c :: nat) in 48 \<le> n \<and> n \<le> 57)"

definition allDigits :: "string \<Rightarrow> bool" where
  "allDigits str = (str \<noteq> [] \<and> list_all isDigit str)"


section \<open>Line command loop (src/unnamed/part_000, class InteractiveMode)\<close>

text \<open>What the loops print or show, one constructor per message of the source.\<close>

datatype message =
    ProvideIdOrName
  | IdNotFound string
  | UseList
  | CreatingNewTask string
  | Started string
  | CreatedAndStarted string
  | Resumed string
  | PausedMsg string string
  | NoPreviousTask
  | LastTaskStopped string
  | NoTaskRunning
  | ErrorMsg error




section \<open>Terminal control loop (src/visualMode.js, class VisualMode)\<close>

record visualMode =
  vm_tasks :: "taskSummary list"
  selectedIndex :: int
  isActive :: bool
  inputBuffer :: string
  statusMessage :: "message option"

definition showMessage :: "message \<Rightarrow> visualMode \<Rightarrow> visualMode" where
  "showMessage m vm = vm\<lparr>statusMessage := Some m\<rparr>"

text \<open>
  \<^verbatim>\<open>refreshTasks()\<close>: the list shown is the result of \<^verbatim>\<open>getTodaysTasks()\<close> without the
  stopped tasks, and the selection is brought back into range.
\<close>

definition refreshTasks :: "int \<Rightarrow> store \<Rightarrow> visualMode \<Rightarrow> visualMode" where
  "refreshTasks todayStart s vm =
     (let ts = filter (\<lambda>task. sStatus task \<noteq> Stopped) (getTodaysTasks todayStart s);
          vm' = vm\<lparr>vm_tasks := ts\<rparr>
      in if selectedIndex vm' \<ge> int (length ts)
         then vm'\<lparr>selectedIndex := max 0 (int (length ts) - 1)\<rparr>
         else vm')"

text \<open>
  The handlers return the exception that escapes them, if any, with the state at the
  \<^verbatim>\<open>throw\<close>. \<open>clk\<close> gives the clock readings of the lifecycle calls in order.
\<close>

definition createAndStartTask :: "(nat \<Rightarrow> int) \<Rightarrow> int \<Rightarrow> string \<Rightarrow> visualMode \<times> store
    \<Rightarrow> error option \<times> visualMode \<times> store" where
  "createAndStartTask clk todayStart taskName st =
     (case st of (vm, s) \<Rightarrow>
        (case createTask (clk 0) taskName [] s of
           (Inl e, s') \<Rightarrow> (Some e, vm, s')
         | (Inr task, s') \<Rightarrow>
             (case startTask (\<lambda>k. clk (Suc k)) (task_id task) s' of
                (Inl e, s2) \<Rightarrow> (Some e, vm, s2)
              | (Inr _, s2) \<Rightarrow>
                  (None, refreshTasks todayStart s2 (showMessage (CreatedAndStarted taskName) vm), s2))))"

definition startTaskByName :: "(nat \<Rightarrow> int) \<Rightarrow> int \<Rightarrow> string \<Rightarrow> visualMode \<times> store
    \<Rightarrow> error option \<times> visualMode \<times> store" where
  "startTaskByName clk todayStart taskName st =
     (case st of (vm, s) \<Rightarrow>
        (case find (\<lambda>task. includesStr (toLowerCase (sName task)) (toLowerCase taskName)) (vm_tasks vm) of
           Some existingTask \<Rightarrow>
             (case startTask clk (sId existingTask) s of
                (Inl e, s') \<Rightarrow> (Some e, vm, s')
              | (Inr _, s') \<Rightarrow>
                  (None, refreshTasks todayStart s' (showMessage (Started (sName existingTask)) vm), s'))
         | None \<Rightarrow>
             (case createAndStartTask clk todayStart taskName (vm, s) of
                (Some e, vm', s') \<Rightarrow> (Some e, vm', s')
              | (None, vm', s') \<Rightarrow> (None, refreshTasks todayStart s' vm', s'))))"




text \<open>
  The time shown for a list entry by \<^verbatim>\<open>render()\<close> (\<^verbatim>\<open>timeDisplay\<close>): the live value for
  a running entry, the summary's formatted total for any other.
\<close>

definition timeDisplay :: "int \<Rightarrow> taskSummary \<Rightarrow> string" where
  "timeDisplay now task =
     (if sStatus task = Running then formatDuration (getCurrentRunningTime now task)
      else sTotalTime task)"

section \<open>Properties stated about the store\<close>

text \<open>The number of records whose status is running, and uniqueness of the ids.\<close>

definition runningCount :: "store \<Rightarrow> nat" where
  "runningCount s = length (getTasksByStatus Running s)"

definition distinctIds :: "store \<Rightarrow> bool" where
  "distinctIds s = distinct (map task_id (tasks s))"

text \<open>
  A sequence of \<open>startTask\<close> calls, each with its clock and its target. A call that raises
  is caught by the caller and the next call goes on from the store it left.
\<close>

fun startAll :: "((nat \<Rightarrow> int) \<times> int) list \<Rightarrow> store \<Rightarrow> store" where
  "startAll [] s = s"
| "startAll (c # cs) s = startAll cs (snd (startTask (fst c) (snd c) s))"

text \<open>
  A session is closed when its end time is set. \<open>closedTotal\<close> is the sum of the recorded
  durations of the closed sessions of a task; \<open>lastOpen\<close> says that the last session exists
  and is open, which is the test of \<open>pauseTask\<close>.
\<close>

definition closedTotal :: "task \<Rightarrow> int" where
  "closedTotal t = sum_list (map duration (filter (\<lambda>se. endTime se \<noteq> None) (sessions t)))"

definition totalTimeInv :: "store \<Rightarrow> bool" where
  "totalTimeInv s = list_all (\<lambda>t. totalTime t = closedTotal t) (tasks s)"

definition lastOpen :: "task \<Rightarrow> bool" where
  "lastOpen t = (sessions t \<noteq> [] \<and> endTime (last (sessions t)) = None)"

definition allClosed :: "task \<Rightarrow> bool" where
  "allClosed t = list_all (\<lambda>se. endTime se \<noteq> None) (sessions t)"

text \<open>
  The session invariants of the data model: a task has an open session exactly when it
  is running, and only the last entry of the append-only session list can be open.
\<close>

definition openSessionInv :: "task \<Rightarrow> bool" where
  "openSessionInv t =
     ((status t = Running) = list_ex (\<lambda>se. endTime se = None) (sessions t)
      \<and> list_all (\<lambda>se. endTime se \<noteq> None) (butlast (sessions t)))"

text \<open>
  The stores that the operations build from the empty file: ids are unique and below
  \<open>nextId\<close>, and every running task has its last session open.
\<close>

definition storeInv :: "store \<Rightarrow> bool" where
  "storeInv s =
     (distinctIds s
      \<and> list_all (\<lambda>t. task_id t < nextId s) (tasks s)
      \<and> list_all (\<lambda>t. status t = Running \<longrightarrow> lastOpen t) (tasks s))"

text \<open>The lifecycle operations as one type, and the store an operation leaves.\<close>

datatype operation =
    OpCreate string string
  | OpStart int
  | OpPause int
  | OpStop int
  | OpUnstop int

fun perform :: "(nat \<Rightarrow> int) \<Rightarrow> operation \<Rightarrow> store \<Rightarrow> store" where
  "perform clk (OpCreate nm u) s = snd (createTask (clk 0) nm u s)"
| "perform clk (OpStart taskId) s = snd (startTask clk taskId s)"
| "perform clk (OpPause taskId) s = snd (pauseTask (clk 0) taskId s)"
| "perform clk (OpStop taskId) s = snd (stopTask clk taskId s)"
| "perform clk (OpUnstop taskId) s = snd (unstopTask taskId s)"

subsection \<open>Stores used as examples\<close>

definition mkTask :: "int \<Rightarrow> string \<Rightarrow> status \<Rightarrow> session list \<Rightarrow> int \<Rightarrow> task" where
  "mkTask i nm st ss tot =
     \<lparr>task_id = i, name = nm, url = [], status = st, sessions = ss, totalTime = tot,
      createdAt = 0, lastStarted = (if ss = [] then None else Some (startTime (last ss))),
      lastPaused = (if ss = [] then None else endTime (last ss)), stoppedAt = None\<rparr>"

definition openSession :: "int \<Rightarrow> session" where
  "openSession a = \<lparr>startTime = a, endTime = None, duration = 0\<rparr>"

definition closedSession :: "int \<Rightarrow> int \<Rightarrow> session" where
  "closedSession a b = \<lparr>startTime = a, endTime = Some b, duration = (b - a) div 1000\<rparr>"

definition emptyStore :: store where
  "emptyStore = \<lparr>tasks = [], nextId = 1, lastActiveTaskId = None\<rparr>"

definition mkStore :: "task list \<Rightarrow> store" where
  "mkStore ts = \<lparr>tasks = ts, nextId = int (length ts) + 1, lastActiveTaskId = None\<rparr>"

text \<open>The record that \<open>pauseTask\<close> writes for a running task \<open>t\<close> at clock reading \<open>now\<close>.\<close>

definition pausedRecord :: "int \<Rightarrow> task \<Rightarrow> task" where
  "pausedRecord now t =
     t\<lparr>status := Paused,
       sessions := butlast (sessions t) @
          [(last (sessions t))\<lparr>endTime := Some now,
              duration := (now - startTime (last (sessions t))) div 1000\<rparr>],
       totalTime := totalTime t + (now - startTime (last (sessions t))) div 1000,
       lastPaused := Some now\<rparr>"







text \<open>
  Activity within the calendar day \<open>[dayStart, dayEnd)\<close>: a session that starts or ends in
  it, or \<open>lastStarted\<close> or \<open>lastPaused\<close> in it. \<open>stampsBefore dayEnd\<close> says that the stamps
  of a task are earlier than the end of the day, as stamps taken from the clock before
  the view is computed are.
\<close>

definition inDay :: "int \<Rightarrow> int \<Rightarrow> int \<Rightarrow> bool" where
  "inDay dayStart dayEnd x = (dayStart \<le> x \<and> x < dayEnd)"

definition activeToday :: "int \<Rightarrow> int \<Rightarrow> task \<Rightarrow> bool" where
  "activeToday dayStart dayEnd t =
     ((\<exists>se\<in>set (sessions t). inDay dayStart dayEnd (startTime se)
          \<or> (\<exists>e. endTime se = Some e \<and> inDay dayStart dayEnd e))
      \<or> (\<exists>x. lastStarted t = Some x \<and> inDay dayStart dayEnd x)
      \<or> (\<exists>x. lastPaused t = Some x \<and> inDay dayStart dayEnd x))"

text \<open>
  Activity at or after \<open>dayStart\<close>, with no bound above: a session that starts or ends
  then, or \<open>lastStarted\<close> or \<open>lastPaused\<close> then.
\<close>

definition activeSince :: "int \<Rightarrow> task \<Rightarrow> bool" where
  "activeSince dayStart t =
     ((\<exists>se\<in>set (sessions t). dayStart \<le> startTime se
          \<or> (\<exists>e. endTime se = Some e \<and> dayStart \<le> e))
      \<or> (\<exists>x. lastStarted t = Some x \<and> dayStart \<le> x)
      \<or> (\<exists>x. lastPaused t = Some x \<and> dayStart \<le> x))"

definition stampsBefore :: "int \<Rightarrow> task \<Rightarrow> bool" where
  "stampsBefore dayEnd t =
     ((\<forall>se\<in>set (sessions t). startTime se < dayEnd \<and> (\<forall>e. endTime se = Some e \<longrightarrow> e < dayEnd))
      \<and> (\<forall>x. lastStarted t = Some x \<longrightarrow> x < dayEnd)
      \<and> (\<forall>x. lastPaused t = Some x \<longrightarrow> x < dayEnd))"

text \<open>
  The effect of pauses on a store: record by record, either nothing, or a running
  record with its last session open, whose id satisfies \<open>P\<close>, was replaced by its paused
  record.
\<close>

definition pausedStep :: "(int \<Rightarrow> bool) \<Rightarrow> task \<Rightarrow> task \<Rightarrow> bool" where
  "pausedStep P t t' =
     (t' = t \<or> (P (task_id t) \<and> status t = Running \<and> lastOpen t \<and> (\<exists>now. t' = pausedRecord now t)))"

definition pausedWhere :: "(int \<Rightarrow> bool) \<Rightarrow> store \<Rightarrow> store \<Rightarrow> bool" where
  "pausedWhere P s s' = (list_all2 (pausedStep P) (tasks s) (tasks s') \<and> nextId s' = nextId s)"

text \<open>The record that \<open>startTask\<close> writes for the target \<open>t\<close> at clock reading \<open>now\<close>.\<close>

definition startedRecord :: "int \<Rightarrow> task \<Rightarrow> task" where
  "startedRecord now t =
     t\<lparr>status := Running,
       sessions := sessions t @ [\<lparr>startTime = now, endTime = None, duration = 0\<rparr>],
       lastStarted := Some now\<rparr>"


text \<open>A clock for the examples: the readings of a call are one millisecond apart.\<close>

definition tick :: "int \<Rightarrow> nat \<Rightarrow> int" where
  "tick t0 k = t0 + int k"

text \<open>
  \<open>closesSession t t'\<close>: the last session of \<open>t\<close> was closed at some clock reading, with
  the whole seconds since its start as duration, and \<open>totalTime\<close> grew by that duration.
\<close>

definition closesSession :: "task \<Rightarrow> task \<Rightarrow> bool" where
  "closesSession t t' =
     (\<exists>now. totalTime t' = totalTime t + (now - startTime (last (sessions t))) div 1000
          \<and> sessions t' = butlast (sessions t) @
               [(last (sessions t))\<lparr>endTime := Some now,
                   duration := (now - startTime (last (sessions t))) div 1000\<rparr>])"

text \<open>
  \<open>pausedBy op t t'\<close>: the record \<open>t\<close> was running with its last session open, it is one
  that operation \<open>op\<close> pauses (the target of a pause or stop, any other task for a start),
  and \<open>t'\<close> has that session closed.
\<close>

definition pausedBy :: "operation \<Rightarrow> task \<Rightarrow> task \<Rightarrow> bool" where
  "pausedBy op t t' =
     (status t = Running \<and> lastOpen t
      \<and> (case op of
            OpStart taskId \<Rightarrow> task_id t \<noteq> taskId
          | OpPause taskId \<Rightarrow> task_id t = taskId
          | OpStop taskId \<Rightarrow> task_id t = taskId
          | _ \<Rightarrow> False)
      \<and> closesSession t t')"

text \<open>
  A record either keeps its total and the sum over its closed sessions, or has its open
  session closed; \<open>pausedIds op\<close> are the ids that \<open>op\<close> pauses.
\<close>

definition keepsOrCloses :: "(int \<Rightarrow> bool) \<Rightarrow> task \<Rightarrow> task \<Rightarrow> bool" where
  "keepsOrCloses Q t t' =
     ((totalTime t' = totalTime t \<and> closedTotal t' = closedTotal t)
      \<or> (Q (task_id t) \<and> status t = Running \<and> lastOpen t \<and> closesSession t t'))"

fun pausedIds :: "operation \<Rightarrow> int \<Rightarrow> bool" where
  "pausedIds (OpStart taskId) i = (i \<noteq> taskId)"
| "pausedIds (OpPause taskId) i = (i = taskId)"
| "pausedIds (OpStop taskId) i = (i = taskId)"
| "pausedIds (OpCreate nm u) i = False"
| "pausedIds (OpUnstop taskId) i = False"

text \<open>The control loop with nothing listed and \<open>buf\<close> typed.\<close>

definition idleMode :: "string \<Rightarrow> visualMode" where
  "idleMode buf = \<lparr>vm_tasks = [], selectedIndex = 0, isActive = True, inputBuffer = buf,
                   statusMessage = None\<rparr>"

text \<open>A sequence of operations, each with its clock, applied to a store.\<close>

fun performAll :: "((nat \<Rightarrow> int) \<times> operation) list \<Rightarrow> store \<Rightarrow> store" where
  "performAll [] s = s"
| "performAll (c # cs) s = performAll cs (perform (fst c) (snd c) s)"

section \<open>Lemmas on the storage operations\<close>

lemma findIndex_find:
  "findIndex p xs = Some i \<Longrightarrow> i < length xs \<and> find p xs = Some (xs ! i)"
  by (induction xs arbitrary: i) (auto split: if_splits)

lemma findIndex_None_iff: "findIndex p xs = None \<longleftrightarrow> find p xs = None"
  by (induction xs) auto

lemma find_findIndex:
  "find p xs = Some x \<Longrightarrow> \<exists>i. findIndex p xs = Some i \<and> i < length xs \<and> xs ! i = x"
  by (induction xs) (auto split: if_splits)

lemma findIndex_first:
  "findIndex p xs = Some i \<Longrightarrow> i < length xs \<and> p (xs ! i) \<and> (\<forall>j<i. \<not> p (xs ! j))"
proof (induction xs arbitrary: i)
  case Nil
  then show ?case by simp
next
  case (Cons x xs)
  show ?case
  proof (cases "p x")
    case True
    with Cons.prems show ?thesis by simp
  next
    case False
    with Cons.prems obtain k where k: "findIndex p xs = Some k" "i = Suc k" by auto
    from Cons.IH[OF k(1)] False k(2) show ?thesis
      by (auto simp: nth_Cons split: nat.splits)
  qed
qed

lemma find_update_first:
  "findIndex p xs = Some i \<Longrightarrow> p y \<Longrightarrow> find p (xs[i := y]) = Some y"
  by (induction xs arbitrary: i) (auto split: if_splits)

lemma findIndex_update_first:
  "findIndex p xs = Some i \<Longrightarrow> p y \<Longrightarrow> findIndex p (xs[i := y]) = Some i"
  by (induction xs arbitrary: i) (auto split: if_splits)

lemma updateTask_found:
  assumes "getTask taskId s = Some t"
  shows "\<exists>i. findIndex (\<lambda>u. task_id u = taskId) (tasks s) = Some i \<and> i < length (tasks s)
           \<and> tasks s ! i = t
           \<and> updateTask taskId f s = (Some (f t), s\<lparr>tasks := (tasks s)[i := f t]\<rparr>)"
proof -
  from assms obtain i where i: "findIndex (\<lambda>u. task_id u = taskId) (tasks s) = Some i"
      "i < length (tasks s)" "tasks s ! i = t"
    using find_findIndex[of "\<lambda>u. task_id u = taskId" "tasks s" t] by (auto simp: getTask_def)
  then show ?thesis by (auto simp: updateTask_def Let_def)
qed

lemma getTask_id: "getTask taskId s = Some t \<Longrightarrow> task_id t = taskId"
  by (auto simp: getTask_def dest: find_Some_iff[THEN iffD1])

lemma getTask_after_update:
  assumes "findIndex (\<lambda>u. task_id u = taskId) (tasks s) = Some i" and "task_id t' = taskId"
  shows "getTask taskId (s\<lparr>tasks := (tasks s)[i := t'], lastActiveTaskId := la\<rparr>) = Some t'"
    and "getTask taskId (s\<lparr>tasks := (tasks s)[i := t']\<rparr>) = Some t'"
  using assms find_update_first[of "\<lambda>u. task_id u = taskId" "tasks s" i t']
  by (simp_all add: getTask_def)

lemma pauseTask_running_open:
  assumes "getTask taskId s = Some t" and "status t = Running" and "lastOpen t"
  shows "\<exists>i. findIndex (\<lambda>u. task_id u = taskId) (tasks s) = Some i \<and> i < length (tasks s)
           \<and> tasks s ! i = t
           \<and> pauseTask now taskId s =
               (Inr (Some (pausedRecord now t)),
                s\<lparr>tasks := (tasks s)[i := pausedRecord now t], lastActiveTaskId := Some taskId\<rparr>)"
proof -
  let ?f = "\<lambda>u. u\<lparr>status := Paused,
       sessions := butlast (sessions t) @
          [(last (sessions t))\<lparr>endTime := Some now,
              duration := (now - startTime (last (sessions t))) div 1000\<rparr>],
       totalTime := totalTime t + (now - startTime (last (sessions t))) div 1000,
       lastPaused := Some now\<rparr>"
  have g: "getTask taskId (setLastActiveTask taskId s) = Some t"
    using assms(1) by (simp add: getTask_def setLastActiveTask_def)
  from updateTask_found[OF g, of ?f]
  obtain i where i: "findIndex (\<lambda>u. task_id u = taskId) (tasks s) = Some i"
      "i < length (tasks s)" "tasks s ! i = t"
      "updateTask taskId ?f (setLastActiveTask taskId s)
         = (Some (?f t), (setLastActiveTask taskId s)\<lparr>tasks := (tasks s)[i := ?f t]\<rparr>)"
    by (auto simp: setLastActiveTask_def)
  have "pauseTask now taskId s = (Inr (Some (?f t)), (setLastActiveTask taskId s)\<lparr>tasks := (tasks s)[i := ?f t]\<rparr>)"
    using assms i(4) by (simp add: pauseTask_def Let_def lastOpen_def)
  then have "pauseTask now taskId s =
               (Inr (Some (pausedRecord now t)),
                s\<lparr>tasks := (tasks s)[i := pausedRecord now t], lastActiveTaskId := Some taskId\<rparr>)"
    by (simp add: pausedRecord_def setLastActiveTask_def)
  with i(1-3) show ?thesis by blast
qed

lemma pauseTask_running_not_open:
  assumes "getTask taskId s = Some t" and "status t = Running" and "\<not> lastOpen t"
  shows "pauseTask now taskId s = (Inl NoActiveSession, s)"
  using assms by (auto simp: pauseTask_def lastOpen_def)

lemma allClosed_not_lastOpen: "allClosed t \<Longrightarrow> \<not> lastOpen t"
proof
  assume a: "allClosed t" and l: "lastOpen t"
  from l have "last (sessions t) \<in> set (sessions t)" by (simp add: lastOpen_def)
  with a have "endTime (last (sessions t)) \<noteq> None" by (simp add: allClosed_def list_all_iff)
  with l show False by (simp add: lastOpen_def)
qed

lemma openSessionInv_lastOpen:
  assumes "openSessionInv t" and "status t = Running"
  shows "lastOpen t"
proof -
  from assms obtain se where se: "se \<in> set (sessions t)" "endTime se = None"
    by (auto simp: openSessionInv_def list_ex_iff)
  then have ne: "sessions t \<noteq> []" by auto
  have "se \<notin> set (butlast (sessions t))"
    using assms(1) se(2) by (auto simp: openSessionInv_def list_all_iff)
  with se(1) ne have "se = last (sessions t)"
    by (metis append_butlast_last_id Un_iff empty_iff insert_iff list.set(1) list.set(2) set_append)
  with se(2) ne show ?thesis by (simp add: lastOpen_def)
qed

section \<open>Pausing a task that is not running\<close>

text \<open>
  Claim C5. When the task addressed by \<open>taskId\<close> is paused or created, \<open>pauseTask\<close>
  raises the invalid-transition error "Task is not currently running" and the store,
  hence every field of the record, is what it was.
\<close>

theorem pauseTask_not_running_unchanged:
  assumes "getTask taskId s = Some t"
    and "status t = Paused \<or> status t = Created"
  shows "pauseTask now taskId s = (Inl NotRunning, s)
       \<and> getTask taskId (snd (pauseTask now taskId s)) = Some t"
  using assms by (auto simp: pauseTask_def)

theorem pauseTask_not_running_unchanged_witness:
  "getTask 1 (mkStore [mkTask 1 ''a'' Paused [closedSession 0 4000] 4])
     = Some (mkTask 1 ''a'' Paused [closedSession 0 4000] 4)
   \<and> status (mkTask 1 ''a'' Paused [closedSession 0 4000] 4) = Paused
   \<and> pauseTask 9000 1 (mkStore [mkTask 1 ''a'' Paused [closedSession 0 4000] 4])
     = (Inl NotRunning, mkStore [mkTask 1 ''a'' Paused [closedSession 0 4000] 4])"
  using pauseTask_not_running_unchanged
          [of 1 "mkStore [mkTask 1 ''a'' Paused [closedSession 0 4000] 4]"
              "mkTask 1 ''a'' Paused [closedSession 0 4000] 4" 9000]
  by (simp add: getTask_def mkStore_def mkTask_def)

section \<open>Pausing a running task that has no open session\<close>

text \<open>
  Claim C9. For a task found running whose sessions are all closed, \<open>pauseTask\<close> raises
  "No active session found" and returns the store as it was. The branch is taken exactly
  when the task is running and its last session is missing or closed, so it cannot be
  reached for a task that satisfies the session invariants of the data model (an open
  session exactly when running, and only in the last place).
\<close>

theorem pauseTask_no_active_session:
  assumes "getTask taskId s = Some t"
  shows "(status t = Running \<and> allClosed t \<longrightarrow> pauseTask now taskId s = (Inl NoActiveSession, s))
       \<and> (fst (pauseTask now taskId s) = Inl NoActiveSession \<longleftrightarrow> status t = Running \<and> \<not> lastOpen t)
       \<and> (openSessionInv t \<longrightarrow> fst (pauseTask now taskId s) \<noteq> Inl NoActiveSession)"
proof (intro conjI impI)
  assume "status t = Running \<and> allClosed t"
  then show "pauseTask now taskId s = (Inl NoActiveSession, s)"
    using pauseTask_running_not_open[OF assms] allClosed_not_lastOpen by blast
next
  show "fst (pauseTask now taskId s) = Inl NoActiveSession \<longleftrightarrow> status t = Running \<and> \<not> lastOpen t"
  proof (cases "status t = Running")
    case False
    with assms show ?thesis by (simp add: pauseTask_def)
  next
    case True
    show ?thesis
    proof (cases "lastOpen t")
      case True
      with pauseTask_running_open[OF assms \<open>status t = Running\<close> True, of now] show ?thesis by auto
    next
      case False
      with pauseTask_running_not_open[OF assms True False, of now] True show ?thesis by simp
    qed
  qed
next
  assume inv: "openSessionInv t"
  show "fst (pauseTask now taskId s) \<noteq> Inl NoActiveSession"
  proof (cases "status t = Running")
    case False
    with assms show ?thesis by (simp add: pauseTask_def)
  next
    case True
    from pauseTask_running_open[OF assms True openSessionInv_lastOpen[OF inv True], of now]
    show ?thesis by auto
  qed
qed

theorem pauseTask_no_active_session_witness:
  "getTask 1 (mkStore [mkTask 1 ''a'' Running [closedSession 0 4000] 4])
     = Some (mkTask 1 ''a'' Running [closedSession 0 4000] 4)
   \<and> status (mkTask 1 ''a'' Running [closedSession 0 4000] 4) = Running
   \<and> allClosed (mkTask 1 ''a'' Running [closedSession 0 4000] 4)
   \<and> pauseTask 9000 1 (mkStore [mkTask 1 ''a'' Running [closedSession 0 4000] 4])
     = (Inl NoActiveSession, mkStore [mkTask 1 ''a'' Running [closedSession 0 4000] 4])
   \<and> getTask 1 (mkStore [mkTask 1 ''a'' Running [closedSession 0 4000, openSession 5000] 4])
     = Some (mkTask 1 ''a'' Running [closedSession 0 4000, openSession 5000] 4)
   \<and> openSessionInv (mkTask 1 ''a'' Running [closedSession 0 4000, openSession 5000] 4)
   \<and> fst (pauseTask 9000 1 (mkStore [mkTask 1 ''a'' Running [closedSession 0 4000, openSession 5000] 4]))
     \<noteq> Inl NoActiveSession"
  using pauseTask_no_active_session
          [of 1 "mkStore [mkTask 1 ''a'' Running [closedSession 0 4000] 4]"
              "mkTask 1 ''a'' Running [closedSession 0 4000] 4" 9000]
        pauseTask_no_active_session
          [of 1 "mkStore [mkTask 1 ''a'' Running [closedSession 0 4000, openSession 5000] 4]"
              "mkTask 1 ''a'' Running [closedSession 0 4000, openSession 5000] 4" 9000]
  by (simp add: getTask_def mkStore_def mkTask_def closedSession_def openSession_def
        allClosed_def openSessionInv_def lastOpen_def)

section \<open>Stopping a task in any status\<close>

text \<open>
  Claim C10. For an existing task, \<open>stopTask\<close> returns the updated record whatever the
  status was (created, paused, running with its open session, or already stopped): the
  status becomes stopped and \<open>stoppedAt\<close> the clock reading of that line. When the task
  was not running, only these two fields change: sessions and \<open>totalTime\<close> are kept and
  no other record of the store is touched.
\<close>

theorem stopTask_any_status:
  assumes "getTask taskId s = Some t"
    and "status t = Running \<longrightarrow> lastOpen t"
  shows "\<exists>t'. fst (stopTask clk taskId s) = Inr (Some t')
           \<and> getTask taskId (snd (stopTask clk taskId s)) = Some t'
           \<and> status t' = Stopped
           \<and> stoppedAt t' = Some (clk (if status t = Running then 1 else 0))
           \<and> (status t \<noteq> Running \<longrightarrow>
                 t' = t\<lparr>status := Stopped, stoppedAt := Some (clk 0)\<rparr>
               \<and> sessions t' = sessions t \<and> totalTime t' = totalTime t
               \<and> (\<exists>i. i < length (tasks s) \<and> tasks s ! i = t
                      \<and> snd (stopTask clk taskId s) = s\<lparr>tasks := (tasks s)[i := t']\<rparr>))"
proof (cases "status t = Running")
  case False
  from updateTask_found[OF assms(1), of "\<lambda>u. u\<lparr>status := Stopped, stoppedAt := Some (clk 0)\<rparr>"]
  obtain i where i: "findIndex (\<lambda>u. task_id u = taskId) (tasks s) = Some i" "i < length (tasks s)"
      "tasks s ! i = t"
      "updateTask taskId (\<lambda>u. u\<lparr>status := Stopped, stoppedAt := Some (clk 0)\<rparr>) s
         = (Some (t\<lparr>status := Stopped, stoppedAt := Some (clk 0)\<rparr>),
            s\<lparr>tasks := (tasks s)[i := t\<lparr>status := Stopped, stoppedAt := Some (clk 0)\<rparr>]\<rparr>)"
    by blast
  have st: "stopTask clk taskId s
      = (Inr (Some (t\<lparr>status := Stopped, stoppedAt := Some (clk 0)\<rparr>)),
         s\<lparr>tasks := (tasks s)[i := t\<lparr>status := Stopped, stoppedAt := Some (clk 0)\<rparr>]\<rparr>)"
    using assms(1) False i(4) by (simp add: stopTask_def)
  have g: "getTask taskId (s\<lparr>tasks := (tasks s)[i := t\<lparr>status := Stopped, stoppedAt := Some (clk 0)\<rparr>]\<rparr>)
      = Some (t\<lparr>status := Stopped, stoppedAt := Some (clk 0)\<rparr>)"
    using getTask_after_update(2)[OF i(1), of "t\<lparr>status := Stopped, stoppedAt := Some (clk 0)\<rparr>"]
      getTask_id[OF assms(1)] by simp
  show ?thesis using False st g i(2,3) by auto
next
  case True
  with assms(2) have lo: "lastOpen t" by simp
  from pauseTask_running_open[OF assms(1) True lo, of "clk 0"]
  obtain i where i: "findIndex (\<lambda>u. task_id u = taskId) (tasks s) = Some i" "i < length (tasks s)"
      "tasks s ! i = t"
      "pauseTask (clk 0) taskId s =
               (Inr (Some (pausedRecord (clk 0) t)),
                s\<lparr>tasks := (tasks s)[i := pausedRecord (clk 0) t], lastActiveTaskId := Some taskId\<rparr>)"
    by blast
  let ?s1 = "s\<lparr>tasks := (tasks s)[i := pausedRecord (clk 0) t], lastActiveTaskId := Some taskId\<rparr>"
  have idp: "task_id (pausedRecord (clk 0) t) = taskId"
    using getTask_id[OF assms(1)] by (simp add: pausedRecord_def)
  have g1: "getTask taskId ?s1 = Some (pausedRecord (clk 0) t)"
    using getTask_after_update(1)[OF i(1) idp] by simp
  from updateTask_found[OF g1, of "\<lambda>u. u\<lparr>status := Stopped, stoppedAt := Some (clk 1)\<rparr>"]
  obtain j where j: "findIndex (\<lambda>u. task_id u = taskId) (tasks ?s1) = Some j"
      "updateTask taskId (\<lambda>u. u\<lparr>status := Stopped, stoppedAt := Some (clk 1)\<rparr>) ?s1
         = (Some ((pausedRecord (clk 0) t)\<lparr>status := Stopped, stoppedAt := Some (clk 1)\<rparr>),
            ?s1\<lparr>tasks := (tasks ?s1)[j := (pausedRecord (clk 0) t)\<lparr>status := Stopped, stoppedAt := Some (clk 1)\<rparr>]\<rparr>)"
    by blast
  have st: "stopTask clk taskId s
      = (Inr (Some ((pausedRecord (clk 0) t)\<lparr>status := Stopped, stoppedAt := Some (clk 1)\<rparr>)),
         ?s1\<lparr>tasks := (tasks ?s1)[j := (pausedRecord (clk 0) t)\<lparr>status := Stopped, stoppedAt := Some (clk 1)\<rparr>]\<rparr>)"
    using assms(1) True i(4) j(2) by (simp add: stopTask_def)
  have g2: "getTask taskId (?s1\<lparr>tasks := (tasks ?s1)[j := (pausedRecord (clk 0) t)\<lparr>status := Stopped, stoppedAt := Some (clk 1)\<rparr>]\<rparr>)
      = Some ((pausedRecord (clk 0) t)\<lparr>status := Stopped, stoppedAt := Some (clk 1)\<rparr>)"
    using getTask_after_update(2)[OF j(1), of "(pausedRecord (clk 0) t)\<lparr>status := Stopped, stoppedAt := Some (clk 1)\<rparr>"] idp
    by simp
  show ?thesis using True st g2 by auto
qed

theorem stopTask_any_status_witness:
  "getTask 1 (mkStore [mkTask 1 ''a'' Stopped [closedSession 0 4000] 4])
     = Some (mkTask 1 ''a'' Stopped [closedSession 0 4000] 4)
   \<and> status (mkTask 1 ''a'' Stopped [closedSession 0 4000] 4) \<noteq> Running
   \<and> (\<exists>t'. fst (stopTask (\<lambda>k. 9000 + int k) 1 (mkStore [mkTask 1 ''a'' Stopped [closedSession 0 4000] 4]))
              = Inr (Some t')
          \<and> status t' = Stopped \<and> stoppedAt t' = Some 9000
          \<and> sessions t' = [closedSession 0 4000] \<and> totalTime t' = 4)"
  using stopTask_any_status
          [of 1 "mkStore [mkTask 1 ''a'' Stopped [closedSession 0 4000] 4]"
              "mkTask 1 ''a'' Stopped [closedSession 0 4000] 4" "\<lambda>k. 9000 + int k"]
  by (auto simp: getTask_def mkStore_def mkTask_def)

section \<open>Elapsed time shown for a task\<close>

text \<open>
  Claim C4. The time shown for a task is \<open>totalTime + floor((now - lastStarted) / 1000)\<close>
  seconds when the task is running (\<open>getCurrentRunningTime\<close>, formatted), and its
  \<open>totalTime\<close> for any other status (the formatted total of the summary).
\<close>

theorem timeDisplay_elapsed:
  "(status t = Running \<and> lastStarted t = Some started \<longrightarrow>
       getCurrentRunningTime now (getTaskSummary t) = totalTime t + (now - started) div 1000
     \<and> timeDisplay now (getTaskSummary t) = formatDuration (totalTime t + (now - started) div 1000))
   \<and> (status t \<noteq> Running \<longrightarrow> timeDisplay now (getTaskSummary t) = formatDuration (totalTime t))"
  by (simp add: timeDisplay_def getCurrentRunningTime_def getTaskSummary_def)

theorem timeDisplay_elapsed_witness:
  "status (mkTask 1 ''a'' Running [openSession 2500] 4) = Running
   \<and> lastStarted (mkTask 1 ''a'' Running [openSession 2500] 4) = Some 2500
   \<and> getCurrentRunningTime 9000 (getTaskSummary (mkTask 1 ''a'' Running [openSession 2500] 4)) = 10
   \<and> timeDisplay 9000 (getTaskSummary (mkTask 1 ''a'' Running [openSession 2500] 4)) = formatDuration 10
   \<and> status (mkTask 2 ''b'' Paused [closedSession 0 4000] 4) \<noteq> Running
   \<and> timeDisplay 9000 (getTaskSummary (mkTask 2 ''b'' Paused [closedSession 0 4000] 4)) = formatDuration 4"
  using timeDisplay_elapsed [of "mkTask 1 ''a'' Running [openSession 2500] 4" 2500 9000]
        timeDisplay_elapsed [of "mkTask 2 ''b'' Paused [closedSession 0 4000] 4" 0 9000]
  by (simp add: mkTask_def openSession_def closedSession_def)

section \<open>Resolution of a typed identifier\<close>


















section \<open>The list of today's tasks\<close>

lemma sinceToday_iff: "sinceToday lo stamp \<longleftrightarrow> (\<exists>x. stamp = Some x \<and> lo \<le> x)"
  by (cases stamp) (simp_all add: sinceToday_def)

lemma workedToday_iff:
  "workedToday lo t \<longleftrightarrow>
     (\<exists>x. lastStarted t = Some x \<and> lo \<le> x) \<or> (\<exists>x. lastPaused t = Some x \<and> lo \<le> x)
     \<or> (\<exists>se\<in>set (sessions t). lo \<le> startTime se \<or> (\<exists>e. endTime se = Some e \<and> lo \<le> e))"
proof (cases "sessions t = []")
  case True
  then show ?thesis by (simp add: workedToday_def sinceToday_iff)
next
  case False
  then show ?thesis by (simp add: workedToday_def sinceToday_iff list_ex_iff) blast
qed

lemma workedToday_activeToday:
  assumes "stampsBefore dayEnd t"
  shows "workedToday dayStart t \<longleftrightarrow> activeToday dayStart dayEnd t"
proof -
  have a: "\<And>x. lastStarted t = Some x \<Longrightarrow> x < dayEnd"
    and b: "\<And>x. lastPaused t = Some x \<Longrightarrow> x < dayEnd"
    and c: "\<And>se. se \<in> set (sessions t) \<Longrightarrow> startTime se < dayEnd"
    and d: "\<And>se e. se \<in> set (sessions t) \<Longrightarrow> endTime se = Some e \<Longrightarrow> e < dayEnd"
    using assms by (auto simp: stampsBefore_def)
  show ?thesis
    unfolding workedToday_iff activeToday_def inDay_def
    using a b c d by blast
qed

text \<open>
  Claim C7, as amended. The list that the control loop shows (\<open>refreshTasks\<close>: the result
  of \<open>getTodaysTasks\<close> without the stopped tasks) holds, in store order, exactly the tasks
  that are not stopped and have activity at or after the start of the current local
  calendar day: a session that starts or ends then, or \<open>lastStarted\<close> or \<open>lastPaused\<close>
  then. It never holds a stopped task. No stamp is tested against the end of the day.
\<close>

theorem today_view_since:
  "vm_tasks (refreshTasks dayStart s vm)
     = map getTaskSummary
         (filter (\<lambda>t. status t \<noteq> Stopped \<and> activeSince dayStart t) (tasks s))
   \<and> (\<forall>u\<in>set (vm_tasks (refreshTasks dayStart s vm)). sStatus u \<noteq> Stopped)"
proof -
  have v: "vm_tasks (refreshTasks dayStart s vm)
      = filter (\<lambda>u. sStatus u \<noteq> Stopped) (map getTaskSummary (filter (workedToday dayStart) (tasks s)))"
    by (simp add: refreshTasks_def Let_def getTodaysTasks_def getAllTasks_def)
  have w: "workedToday dayStart t = activeSince dayStart t" for t
    unfolding workedToday_iff activeSince_def by blast
  have "filter (\<lambda>u. sStatus u \<noteq> Stopped) (map getTaskSummary (filter (workedToday dayStart) (tasks s)))
      = map getTaskSummary (filter (\<lambda>t. status t \<noteq> Stopped \<and> workedToday dayStart t) (tasks s))"
    by (simp add: filter_map comp_def getTaskSummary_def conj_commute)
  also have "\<dots> = map getTaskSummary
               (filter (\<lambda>t. status t \<noteq> Stopped \<and> activeSince dayStart t) (tasks s))"
    by (simp add: w)
  finally show ?thesis using v by (auto simp: getTaskSummary_def)
qed

theorem today_view_since_witness:
  "vm_tasks (refreshTasks 86400000
        (mkStore [mkTask 1 ''old'' Paused [closedSession 1000 5000] 4,
                  mkTask 2 ''gone'' Stopped [closedSession 86500000 86501000] 1,
                  mkTask 3 ''now'' Paused [closedSession 1000 86500000] 86499])
        (idleMode []))
     = [getTaskSummary (mkTask 3 ''now'' Paused [closedSession 1000 86500000] 86499)]"
  using today_view_since
          [of 86400000 "mkStore [mkTask 1 ''old'' Paused [closedSession 1000 5000] 4,
                  mkTask 2 ''gone'' Stopped [closedSession 86500000 86501000] 1,
                  mkTask 3 ''now'' Paused [closedSession 1000 86500000] 86499]"
              "idleMode []"]
  by (simp add: mkStore_def mkTask_def closedSession_def activeSince_def)

text \<open>
  The claim as stated, activity within the current calendar day, fails for a stamp after
  the end of the day (as left by a clock that was set back): with the day from 86400000
  to 172800000, a paused task whose only session runs from 180000000 to 180005000 has no
  activity in the day and is listed.
\<close>

theorem today_view_counterexample:
  "\<not> activeToday 86400000 172800000 (mkTask 1 ''late'' Paused [closedSession 180000000 180005000] 5)
   \<and> vm_tasks (refreshTasks 86400000
        (mkStore [mkTask 1 ''late'' Paused [closedSession 180000000 180005000] 5]) (idleMode []))
     = [getTaskSummary (mkTask 1 ''late'' Paused [closedSession 180000000 180005000] 5)]"
  by (simp add: refreshTasks_def getTodaysTasks_def getAllTasks_def workedToday_def sinceToday_def
      activeToday_def inDay_def mkStore_def mkTask_def closedSession_def idleMode_def Let_def
      getTaskSummary_def)

text \<open>
  When every stamp of the store lies before the end of the day, activity since the start
  of the day is activity within the day, and the list is as the claim states it.
\<close>

lemma today_view_within_day:
  assumes "\<forall>t\<in>set (tasks s). stampsBefore dayEnd t"
  shows "vm_tasks (refreshTasks dayStart s vm)
           = map getTaskSummary
               (filter (\<lambda>t. status t \<noteq> Stopped \<and> activeToday dayStart dayEnd t) (tasks s))
         \<and> (\<forall>u\<in>set (vm_tasks (refreshTasks dayStart s vm)). sStatus u \<noteq> Stopped)"
proof -
  have v: "vm_tasks (refreshTasks dayStart s vm)
      = filter (\<lambda>u. sStatus u \<noteq> Stopped) (map getTaskSummary (filter (workedToday dayStart) (tasks s)))"
    by (simp add: refreshTasks_def Let_def getTodaysTasks_def getAllTasks_def)
  have "filter (\<lambda>u. sStatus u \<noteq> Stopped) (map getTaskSummary (filter (workedToday dayStart) (tasks s)))
      = map getTaskSummary (filter (\<lambda>t. status t \<noteq> Stopped \<and> workedToday dayStart t) (tasks s))"
    by (simp add: filter_map comp_def getTaskSummary_def conj_commute)
  also have "\<dots> = map getTaskSummary
               (filter (\<lambda>t. status t \<noteq> Stopped \<and> activeToday dayStart dayEnd t) (tasks s))"
    using assms workedToday_activeToday[of dayEnd _ dayStart] by (intro arg_cong[where f="map getTaskSummary"] filter_cong) auto
  finally show ?thesis using v by (auto simp: getTaskSummary_def)
qed

section \<open>What pauses do to a store\<close>

lemma pauseTask_cases:
  obtains (err) e where "pauseTask now taskId s = (Inl e, s)"
  | (ok) i t where "findIndex (\<lambda>u. task_id u = taskId) (tasks s) = Some i"
      "i < length (tasks s)" "tasks s ! i = t" "getTask taskId s = Some t"
      "status t = Running" "lastOpen t"
      "pauseTask now taskId s =
         (Inr (Some (pausedRecord now t)),
          s\<lparr>tasks := (tasks s)[i := pausedRecord now t], lastActiveTaskId := Some taskId\<rparr>)"
proof (cases "getTask taskId s")
  case None
  then have "pauseTask now taskId s = (Inl (TaskNotFound taskId), s)" by (simp add: pauseTask_def)
  then show ?thesis by (rule err)
next
  case (Some t)
  show ?thesis
  proof (cases "status t = Running")
    case False
    with Some have "pauseTask now taskId s = (Inl NotRunning, s)" by (simp add: pauseTask_def)
    then show ?thesis by (rule err)
  next
    case True
    show ?thesis
    proof (cases "lastOpen t")
      case False
      from pauseTask_running_not_open[OF Some True False] show ?thesis by (rule err)
    next
      case lo: True
      from pauseTask_running_open[OF Some True lo, of now] obtain i where
        "findIndex (\<lambda>u. task_id u = taskId) (tasks s) = Some i" "i < length (tasks s)"
        "tasks s ! i = t"
        "pauseTask now taskId s =
           (Inr (Some (pausedRecord now t)),
            s\<lparr>tasks := (tasks s)[i := pausedRecord now t], lastActiveTaskId := Some taskId\<rparr>)"
        by blast
      then show ?thesis using Some True lo by (intro ok[of i t])
    qed
  qed
qed

lemma pausedRecord_simps [simp]:
  "task_id (pausedRecord now t) = task_id t"
  "status (pausedRecord now t) = Paused"
  "name (pausedRecord now t) = name t"
  "totalTime (pausedRecord now t) = totalTime t + (now - startTime (last (sessions t))) div 1000"
  by (simp_all add: pausedRecord_def)

lemma pausedStep_refl: "pausedStep P t t"
  by (simp add: pausedStep_def)

lemma pausedStep_trans: "pausedStep P a b \<Longrightarrow> pausedStep P b c \<Longrightarrow> pausedStep P a c"
  by (auto simp: pausedStep_def)

lemma pausedStep_mono: "pausedStep P a b \<Longrightarrow> (\<And>i. P i \<Longrightarrow> Q i) \<Longrightarrow> pausedStep Q a b"
  by (auto simp: pausedStep_def)

lemma pausedStep_id: "pausedStep P a b \<Longrightarrow> task_id b = task_id a"
  by (auto simp: pausedStep_def)

lemma pausedStep_not_running: "pausedStep P a b \<Longrightarrow> status a \<noteq> Running \<Longrightarrow> b = a"
  by (auto simp: pausedStep_def)

lemma pausedStep_other: "pausedStep P a b \<Longrightarrow> \<not> P (task_id a) \<Longrightarrow> b = a"
  by (auto simp: pausedStep_def)

lemma pausedStep_status: "pausedStep P a b \<Longrightarrow> status b = Running \<Longrightarrow> status a = Running"
  by (auto simp: pausedStep_def)

lemma pausedWhere_refl: "pausedWhere P s s"
  by (simp add: pausedWhere_def list_all2_refl pausedStep_refl)

lemma pausedWhere_trans: "pausedWhere P s s1 \<Longrightarrow> pausedWhere P s1 s2 \<Longrightarrow> pausedWhere P s s2"
  unfolding pausedWhere_def
  using list_all2_trans[of "pausedStep P" "pausedStep P" "pausedStep P"] pausedStep_trans
  by metis

lemma pausedWhere_mono: "pausedWhere P s s' \<Longrightarrow> (\<And>i. P i \<Longrightarrow> Q i) \<Longrightarrow> pausedWhere Q s s'"
  unfolding pausedWhere_def using pausedStep_mono
  by (metis (no_types, lifting) list_all2_mono)

lemma pausedWhere_length: "pausedWhere P s s' \<Longrightarrow> length (tasks s') = length (tasks s)"
  by (auto simp: pausedWhere_def dest: list_all2_lengthD)

lemma pausedWhere_nth:
  "pausedWhere P s s' \<Longrightarrow> j < length (tasks s) \<Longrightarrow> pausedStep P (tasks s ! j) (tasks s' ! j)"
  by (simp add: pausedWhere_def list_all2_nthD)

lemma pausedWhere_ids: "pausedWhere P s s' \<Longrightarrow> map task_id (tasks s') = map task_id (tasks s)"
  by (auto simp: pausedWhere_def list_all2_conv_all_nth pausedStep_id intro!: nth_equalityI)

lemma pauseTask_pausedWhere: "pausedWhere (\<lambda>i. i = taskId) s (snd (pauseTask now taskId s))"
proof (cases rule: pauseTask_cases[of now taskId s])
  case (err e)
  then show ?thesis by (simp add: pausedWhere_refl)
next
  case (ok i t)
  have "pausedStep (\<lambda>i. i = taskId) (tasks s ! i) (pausedRecord now t)"
    using ok getTask_id[OF ok(4)] by (auto simp: pausedStep_def)
  then have "list_all2 (pausedStep (\<lambda>i. i = taskId)) ((tasks s)[i := tasks s ! i]) ((tasks s)[i := pausedRecord now t])"
    by (intro list_all2_update_cong) (simp_all add: list_all2_refl pausedStep_refl)
  then show ?thesis using ok(7) by (simp add: pausedWhere_def)
qed

lemma pauseRunning_pausedWhere:
  "pausedWhere (\<lambda>i. i \<noteq> taskId) s (snd (pauseRunning clk k taskId rs s))"
proof (induction rs arbitrary: k s)
  case Nil
  then show ?case by (simp add: pausedWhere_refl)
next
  case (Cons r rs)
  show ?case
  proof (cases "task_id r = taskId")
    case True
    then show ?thesis using Cons.IH by simp
  next
    case False
    have p: "pausedWhere (\<lambda>i. i \<noteq> taskId) s (snd (pauseTask (clk k) (task_id r) s))"
      by (rule pausedWhere_mono[OF pauseTask_pausedWhere[of "task_id r" s "clk k"]]) (use False in simp)
    show ?thesis
    proof (cases "pauseTask (clk k) (task_id r) s")
      case (Pair res s1)
      show ?thesis
      proof (cases res)
        case (Inl e)
        with Pair p False show ?thesis by simp
      next
        case (Inr x)
        with Pair False have "snd (pauseRunning clk k taskId (r # rs) s)
            = snd (pauseRunning clk (Suc k) taskId rs s1)" by simp
        moreover have "pausedWhere (\<lambda>i. i \<noteq> taskId) s s1" using p Pair by simp
        ultimately show ?thesis using Cons.IH[of s1 "Suc k"] pausedWhere_trans by metis
      qed
    qed
  qed
qed

lemma pausedWhere_running_count:
  assumes "pausedWhere P s s'"
  shows "runningCount s' \<le> runningCount s"
proof -
  have "list_all2 (pausedStep P) xs ys \<Longrightarrow>
        length (filter (\<lambda>t. status t = Running) ys) \<le> length (filter (\<lambda>t. status t = Running) xs)" for xs ys
  proof (induction xs ys rule: list_all2_induct)
    case Nil
    then show ?case by simp
  next
    case (Cons x xs y ys)
    then show ?case using pausedStep_status[of P x y] by auto
  qed
  with assms show ?thesis by (simp add: runningCount_def getTasksByStatus_def pausedWhere_def)
qed

section \<open>At most one running task\<close>

lemma startedRecord_simps [simp]:
  "task_id (startedRecord now t) = task_id t"
  "status (startedRecord now t) = Running"
  "totalTime (startedRecord now t) = totalTime t"
  "sessions (startedRecord now t) = sessions t @ [\<lparr>startTime = now, endTime = None, duration = 0\<rparr>]"
  by (simp_all add: startedRecord_def)

lemma distinct_ids_index:
  assumes "distinct (map task_id xs)" and "i < length xs" and "j < length xs"
    and "task_id (xs ! i) = task_id (xs ! j)"
  shows "i = j"
proof -
  have "map task_id xs ! i = map task_id xs ! j" using assms by simp
  then show ?thesis using assms(1,2,3) by (simp add: nth_eq_iff_index_eq del: nth_map)
qed

lemma findIndex_same_ids:
  "map task_id xs = map task_id ys \<Longrightarrow>
     findIndex (\<lambda>u. task_id u = taskId) xs = findIndex (\<lambda>u. task_id u = taskId) ys"
proof (induction xs arbitrary: ys)
  case Nil
  then show ?case by simp
next
  case (Cons x xs)
  then obtain y ys' where "ys = y # ys'" "task_id x = task_id y" "map task_id xs = map task_id ys'"
    by (cases ys) auto
  with Cons.IH[of ys'] show ?case by simp
qed

lemma pauseRunning_Inr_paused:
  assumes "distinct (map task_id (tasks s))"
    and "pauseRunning clk k taskId rs s = (Inr k', s')"
  shows "\<forall>t'\<in>set (tasks s'). task_id t' \<in> task_id ` set rs \<longrightarrow> task_id t' \<noteq> taskId
           \<longrightarrow> status t' \<noteq> Running"
  using assms
proof (induction rs arbitrary: k s)
  case Nil
  then show ?case by simp
next
  case (Cons r rs)
  show ?case
  proof (cases "task_id r = taskId")
    case True
    with Cons.prems have "pauseRunning clk k taskId rs s = (Inr k', s')" by simp
    from Cons.IH[OF Cons.prems(1) this] True show ?thesis by auto
  next
    case False
    show ?thesis
    proof (cases rule: pauseTask_cases[of "clk k" "task_id r" s])
      case (err e)
      with Cons.prems(2) False show ?thesis by simp
    next
      case (ok i t)
      let ?s1 = "s\<lparr>tasks := (tasks s)[i := pausedRecord (clk k) t], lastActiveTaskId := Some (task_id r)\<rparr>"
      from ok(7) Cons.prems(2) False
      have loop: "pauseRunning clk (Suc k) taskId rs ?s1 = (Inr k', s')" by simp
      have pw1: "pausedWhere (\<lambda>i. i = task_id r) s ?s1"
        using pauseTask_pausedWhere[of "task_id r" s "clk k"] ok(7) by simp
      have ids1: "map task_id (tasks ?s1) = map task_id (tasks s)"
        by (rule pausedWhere_ids[OF pw1])
      then have d1: "distinct (map task_id (tasks ?s1))" using Cons.prems(1) by simp
      have pw2: "pausedWhere (\<lambda>i. i \<noteq> taskId) ?s1 s'"
        using pauseRunning_pausedWhere[of taskId ?s1 clk "Suc k" rs] loop by simp
      have ids2: "map task_id (tasks s') = map task_id (tasks ?s1)"
        by (rule pausedWhere_ids[OF pw2])
      have len: "length (tasks s') = length (tasks s)"
        using pausedWhere_length[OF pw2] by simp
      have at_i: "tasks s' ! i = pausedRecord (clk k) t"
      proof -
        have "pausedStep (\<lambda>i. i \<noteq> taskId) (tasks ?s1 ! i) (tasks s' ! i)"
          using pausedWhere_nth[OF pw2, of i] ok(2) by simp
        moreover have "tasks ?s1 ! i = pausedRecord (clk k) t" using ok(2) by simp
        ultimately show ?thesis using pausedStep_not_running by fastforce
      qed
      have idt: "task_id t = task_id r" using getTask_id[OF ok(4)] .
      show ?thesis
      proof (intro ballI impI)
        fix t'
        assume t': "t' \<in> set (tasks s')" and mem: "task_id t' \<in> task_id ` set (r # rs)"
          and ne: "task_id t' \<noteq> taskId"
        show "status t' \<noteq> Running"
        proof (cases "task_id t' = task_id r")
          case True
          from t' obtain j where j: "j < length (tasks s')" "tasks s' ! j = t'"
            by (auto simp: in_set_conv_nth)
          have "map task_id (tasks s') ! j = map task_id (tasks s') ! i"
            using j ok(2) len at_i True idt by simp
          moreover have "distinct (map task_id (tasks s'))" using ids2 d1 by simp
          ultimately have "j = i" using j(1) ok(2) len
            by (simp add: nth_eq_iff_index_eq del: nth_map)
          with j(2) at_i have "t' = pausedRecord (clk k) t" by simp
          then have "status t' = Paused" by (simp only: pausedRecord_simps)
          then show ?thesis by simp
        next
          case False
          with mem have "task_id t' \<in> task_id ` set rs" by auto
          with Cons.IH[OF d1 loop] t' ne show ?thesis by blast
        qed
      qed
    qed
  qed
qed

lemma filter_update_single:
  assumes "\<forall>x\<in>set xs. \<not> P x" and "i < length xs" and "P y"
  shows "filter P (xs[i := y]) = [y]"
  using assms
proof (induction xs arbitrary: i)
  case Nil
  then show ?case by simp
next
  case (Cons x xs)
  then show ?case by (cases i) auto
qed

lemma startTask_cases:
  obtains (err) e s' where "startTask clk taskId s = (Inl e, s')"
      "pausedWhere (\<lambda>i. i \<noteq> taskId) s s'"
  | (ok) t i k s' where "getTask taskId s = Some t" "status t \<noteq> Running"
      "findIndex (\<lambda>u. task_id u = taskId) (tasks s) = Some i" "i < length (tasks s)"
      "tasks s ! i = t" "tasks s' ! i = t"
      "pauseRunning clk 0 taskId (getTasksByStatus Running s) s = (Inr k, s')"
      "pausedWhere (\<lambda>i. i \<noteq> taskId) s s'"
      "startTask clk taskId s =
         (Inr (Some (startedRecord (clk k) t)),
          s'\<lparr>tasks := (tasks s')[i := startedRecord (clk k) t], lastActiveTaskId := Some taskId\<rparr>)"
proof (cases "getTask taskId s")
  case None
  then have "startTask clk taskId s = (Inl (TaskNotFound taskId), s)" by (simp add: startTask_def)
  then show ?thesis using pausedWhere_refl by (rule err)
next
  case (Some t)
  show ?thesis
  proof (cases "status t = Running")
    case True
    with Some have "startTask clk taskId s = (Inl AlreadyRunning, s)" by (simp add: startTask_def)
    then show ?thesis using pausedWhere_refl by (rule err)
  next
    case False
    obtain res s' where loop: "pauseRunning clk 0 taskId (getTasksByStatus Running s) s = (res, s')"
      by (cases "pauseRunning clk 0 taskId (getTasksByStatus Running s) s") auto
    have pw: "pausedWhere (\<lambda>i. i \<noteq> taskId) s s'"
      using pauseRunning_pausedWhere[of taskId s clk 0 "getTasksByStatus Running s"] loop by simp
    show ?thesis
    proof (cases res)
      case (Inl e)
      with Some False loop have "startTask clk taskId s = (Inl e, s')" by (simp add: startTask_def)
      then show ?thesis using pw by (rule err)
    next
      case (Inr k)
      from find_findIndex[of "\<lambda>u. task_id u = taskId" "tasks s" t] Some
      obtain i where i: "findIndex (\<lambda>u. task_id u = taskId) (tasks s) = Some i"
          "i < length (tasks s)" "tasks s ! i = t"
        by (auto simp: getTask_def)
      have same: "tasks s' ! i = t"
        using pausedWhere_nth[OF pw i(2)] i(3) False pausedStep_not_running by fastforce
      have fi: "findIndex (\<lambda>u. task_id u = taskId) (tasks (setLastActiveTask taskId s')) = Some i"
        using findIndex_same_ids[OF pausedWhere_ids[OF pw], of taskId] i(1)
        by (simp add: setLastActiveTask_def)
      have loop': "pauseRunning clk 0 taskId (getTasksByStatus Running s) s = (Inr k, s')"
        using loop Inr by simp
      have "startTask clk taskId s =
         (Inr (Some (startedRecord (clk k) t)),
          s'\<lparr>tasks := (tasks s')[i := startedRecord (clk k) t], lastActiveTaskId := Some taskId\<rparr>)"
        using Some False loop Inr fi same
        by (simp add: startTask_def updateTask_def Let_def setLastActiveTask_def startedRecord_def)
      with Some False i(1) i(2) i(3) same loop' pw show ?thesis by (rule ok)
    qed
  qed
qed

lemma startTask_ids:
  "map task_id (tasks (snd (startTask clk taskId s))) = map task_id (tasks s)"
proof (cases rule: startTask_cases[of clk taskId s])
  case (err e s')
  then show ?thesis using pausedWhere_ids by simp
next
  case (ok t i k s')
  have "map task_id ((tasks s')[i := startedRecord (clk k) t]) = map task_id (tasks s')"
    using ok(6) by (simp add: map_update list_update_same_conv pausedWhere_length[OF ok(8)] ok(4))
  then show ?thesis using ok(9) pausedWhere_ids[OF ok(8)] by simp
qed

lemma startTask_Inr_one_running:
  assumes "distinctIds s" and "startTask clk taskId s = (Inr r, s2)"
  shows "runningCount s2 = 1 \<and> (\<exists>t. getTask taskId s2 = Some t \<and> status t = Running \<and> r = Some t)"
proof (cases rule: startTask_cases[of clk taskId s])
  case (err e s')
  with assms(2) show ?thesis by simp
next
  case (ok t i k s')
  have d: "distinct (map task_id (tasks s))" using assms(1) by (simp add: distinctIds_def)
  have len: "length (tasks s') = length (tasks s)" by (rule pausedWhere_length[OF ok(8)])
  have ids: "map task_id (tasks s') = map task_id (tasks s)" by (rule pausedWhere_ids[OF ok(8)])
  have none: "\<forall>t'\<in>set (tasks s'). status t' \<noteq> Running"
  proof
    fix t'
    assume "t' \<in> set (tasks s')"
    then obtain j where j: "j < length (tasks s')" "tasks s' ! j = t'" by (auto simp: in_set_conv_nth)
    have step: "pausedStep (\<lambda>i. i \<noteq> taskId) (tasks s ! j) t'"
      using pausedWhere_nth[OF ok(8), of j] j len by simp
    show "status t' \<noteq> Running"
    proof
      assume run: "status t' = Running"
      then have run0: "status (tasks s ! j) = Running" using pausedStep_status[OF step] by simp
      then have mem: "tasks s ! j \<in> set (getTasksByStatus Running s)"
        using j(1) len by (simp add: getTasksByStatus_def)
      have idj: "task_id t' = task_id (tasks s ! j)" using pausedStep_id[OF step] .
      have "task_id (tasks s ! j) \<noteq> taskId"
      proof
        assume "task_id (tasks s ! j) = taskId"
        then have "task_id (tasks s ! j) = task_id (tasks s ! i)"
          using ok(5) getTask_id[OF ok(1)] by simp
        then have "j = i" using distinct_ids_index[OF d _ ok(4)] j(1) len by simp
        with run0 ok(5) ok(2) show False by simp
      qed
      with pauseRunning_Inr_paused[OF d ok(7)] \<open>t' \<in> set (tasks s')\<close> mem idj
      have "status t' \<noteq> Running" by (metis imageI)
      with run show False by simp
    qed
  qed
  have "filter (\<lambda>t. status t = Running) ((tasks s')[i := startedRecord (clk k) t]) = [startedRecord (clk k) t]"
    using filter_update_single[of "tasks s'" "\<lambda>t. status t = Running" i "startedRecord (clk k) t"]
      none ok(4) len by simp
  then have rc: "runningCount (s'\<lparr>tasks := (tasks s')[i := startedRecord (clk k) t], lastActiveTaskId := Some taskId\<rparr>) = 1"
    by (simp add: runningCount_def getTasksByStatus_def)
  have fi: "findIndex (\<lambda>u. task_id u = taskId) (tasks s') = Some i"
    using findIndex_same_ids[OF ids, of taskId] ok(3) by simp
  have g: "getTask taskId (s'\<lparr>tasks := (tasks s')[i := startedRecord (clk k) t], lastActiveTaskId := Some taskId\<rparr>)
      = Some (startedRecord (clk k) t)"
    using getTask_after_update(1)[OF fi, of "startedRecord (clk k) t" "Some taskId"] getTask_id[OF ok(1)]
    by simp
  from ok(9) assms(2) rc g show ?thesis by auto
qed

lemma startTask_Inl_count:
  assumes "startTask clk taskId s = (Inl e, s2)"
  shows "runningCount s2 \<le> runningCount s"
proof (cases rule: startTask_cases[of clk taskId s])
  case (err e s')
  with assms pausedWhere_running_count show ?thesis by auto
next
  case (ok t i k s')
  with assms show ?thesis by simp
qed

lemma startTask_distinctIds: "distinctIds s \<Longrightarrow> distinctIds (snd (startTask clk taskId s))"
  by (simp add: distinctIds_def startTask_ids)

lemma startAll_distinctIds: "distinctIds s \<Longrightarrow> distinctIds (startAll calls s)"
  by (induction calls arbitrary: s) (simp_all add: startTask_distinctIds)

lemma startTask_count_le_one:
  assumes "distinctIds s" and "runningCount s \<le> 1"
  shows "runningCount (snd (startTask clk taskId s)) \<le> 1"
proof (cases "startTask clk taskId s")
  case (Pair res s2)
  show ?thesis
  proof (cases res)
    case (Inl e)
    with Pair startTask_Inl_count[of clk taskId s e s2] assms(2) show ?thesis by simp
  next
    case (Inr r)
    with Pair startTask_Inr_one_running[OF assms(1), of clk taskId r s2] show ?thesis by simp
  qed
qed

lemma startAll_count_le_one:
  "distinctIds s \<Longrightarrow> runningCount s \<le> 1 \<Longrightarrow> runningCount (startAll calls s) \<le> 1"
proof (induction calls arbitrary: s)
  case Nil
  then show ?case by simp
next
  case (Cons c cs)
  show ?case
    using Cons.IH[OF startTask_distinctIds[OF Cons.prems(1)] startTask_count_le_one[OF Cons.prems]]
    by simp
qed

lemma startTask_loop_none_running:
  assumes d: "distinct (map task_id (tasks s))"
    and g: "getTask taskId s = Some t" and nr: "status t \<noteq> Running"
    and i: "i < length (tasks s)" "tasks s ! i = t"
    and loop: "pauseRunning clk 0 taskId (getTasksByStatus Running s) s = (Inr k, s')"
    and pw: "pausedWhere (\<lambda>i. i \<noteq> taskId) s s'"
  shows "\<forall>t'\<in>set (tasks s'). status t' \<noteq> Running"
proof
  have len: "length (tasks s') = length (tasks s)" by (rule pausedWhere_length[OF pw])
  fix t'
  assume mem': "t' \<in> set (tasks s')"
  then obtain j where j: "j < length (tasks s')" "tasks s' ! j = t'" by (auto simp: in_set_conv_nth)
  have step: "pausedStep (\<lambda>i. i \<noteq> taskId) (tasks s ! j) t'"
    using pausedWhere_nth[OF pw, of j] j len by simp
  show "status t' \<noteq> Running"
  proof
    assume run: "status t' = Running"
    then have run0: "status (tasks s ! j) = Running" using pausedStep_status[OF step] by simp
    then have mem: "tasks s ! j \<in> set (getTasksByStatus Running s)"
      using j(1) len by (simp add: getTasksByStatus_def)
    have idj: "task_id t' = task_id (tasks s ! j)" using pausedStep_id[OF step] .
    have "task_id (tasks s ! j) \<noteq> taskId"
    proof
      assume "task_id (tasks s ! j) = taskId"
      then have "task_id (tasks s ! j) = task_id (tasks s ! i)"
        using i(2) getTask_id[OF g] by simp
      then have "j = i" using distinct_ids_index[OF d _ i(1)] j(1) len by simp
      with run0 i(2) nr show False by simp
    qed
    with pauseRunning_Inr_paused[OF d loop] mem' mem idj
    have "status t' \<noteq> Running" by (metis imageI)
    with run show False by simp
  qed
qed

lemma startTask_Inr_others:
  assumes "distinctIds s" and "startTask clk taskId s = (Inr r, s2)"
  shows "length (tasks s2) = length (tasks s)
       \<and> (\<forall>j<length (tasks s). task_id (tasks s ! j) \<noteq> taskId \<longrightarrow>
             (if status (tasks s ! j) = Running
              then \<exists>now. tasks s2 ! j = pausedRecord now (tasks s ! j)
              else tasks s2 ! j = tasks s ! j))"
proof (cases rule: startTask_cases[of clk taskId s])
  case (err e s')
  with assms(2) show ?thesis by simp
next
  case (ok t i k s')
  have d: "distinct (map task_id (tasks s))" using assms(1) by (simp add: distinctIds_def)
  have len: "length (tasks s') = length (tasks s)" by (rule pausedWhere_length[OF ok(8)])
  have none: "\<forall>t'\<in>set (tasks s'). status t' \<noteq> Running"
    by (rule startTask_loop_none_running[OF d ok(1) ok(2) ok(4) ok(5) ok(7) ok(8)])
  have s2: "tasks s2 = (tasks s')[i := startedRecord (clk k) t]" using ok(9) assms(2) by auto
  have "if status (tasks s ! j) = Running
        then \<exists>now. tasks s2 ! j = pausedRecord now (tasks s ! j)
        else tasks s2 ! j = tasks s ! j"
    if j: "j < length (tasks s)" and ne: "task_id (tasks s ! j) \<noteq> taskId" for j
  proof -
    have "j \<noteq> i" using ne ok(5) getTask_id[OF ok(1)] by auto
    then have same: "tasks s2 ! j = tasks s' ! j" using s2 by simp
    have step: "pausedStep (\<lambda>i. i \<noteq> taskId) (tasks s ! j) (tasks s' ! j)"
      by (rule pausedWhere_nth[OF ok(8) j])
    show ?thesis
    proof (cases "status (tasks s ! j) = Running")
      case False
      with pausedStep_not_running[OF step] same show ?thesis by simp
    next
      case True
      have "tasks s' ! j \<in> set (tasks s')" using j len by simp
      with none have "status (tasks s' ! j) \<noteq> Running" by blast
      with True have "tasks s' ! j \<noteq> tasks s ! j" by auto
      with step have "\<exists>now. tasks s' ! j = pausedRecord now (tasks s ! j)"
        by (auto simp: pausedStep_def)
      with True same show ?thesis by simp
    qed
  qed
  moreover have "length (tasks s2) = length (tasks s)" using s2 len by simp
  ultimately show ?thesis by blast
qed

text \<open>
  Claim C1, as amended. On a store whose ids are pairwise distinct, after any sequence
  of \<open>startTask\<close> calls: a further call that returns leaves exactly one task running, the
  target, and it has paused every other task that was running (each such record is
  replaced by the record \<open>pauseTask\<close> writes for it: status paused, open session closed)
  and left the records of the other tasks that were not running as they were; a call
  that raises does not increase the number of running tasks. Hence, when at most one
  task is running initially, at most one is running after every call of the sequence.
\<close>

theorem startTask_one_running:
  assumes "distinctIds s"
  shows "(runningCount s \<le> 1 \<longrightarrow> runningCount (startAll calls s) \<le> 1)
       \<and> (\<forall>clk taskId r s'. startTask clk taskId (startAll calls s) = (Inr r, s') \<longrightarrow>
             runningCount s' = 1 \<and> (\<exists>t. getTask taskId s' = Some t \<and> status t = Running)
           \<and> length (tasks s') = length (tasks (startAll calls s))
           \<and> (\<forall>j<length (tasks (startAll calls s)).
                 task_id (tasks (startAll calls s) ! j) \<noteq> taskId \<longrightarrow>
                   (if status (tasks (startAll calls s) ! j) = Running
                    then \<exists>now. tasks s' ! j = pausedRecord now (tasks (startAll calls s) ! j)
                    else tasks s' ! j = tasks (startAll calls s) ! j)))
       \<and> (\<forall>clk taskId e s'. startTask clk taskId (startAll calls s) = (Inl e, s') \<longrightarrow>
             runningCount s' \<le> runningCount (startAll calls s))"
proof (intro conjI impI allI)
  assume "runningCount s \<le> 1"
  then show "runningCount (startAll calls s) \<le> 1" using startAll_count_le_one[OF assms] by simp
next
  fix clk taskId r s'
  assume a: "startTask clk taskId (startAll calls s) = (Inr r, s')"
  from startTask_Inr_one_running[OF startAll_distinctIds[OF assms] a]
  show "runningCount s' = 1" and "\<exists>t. getTask taskId s' = Some t \<and> status t = Running" by auto
  from startTask_Inr_others[OF startAll_distinctIds[OF assms] a]
  show "length (tasks s') = length (tasks (startAll calls s))" by simp
  fix j
  assume "j < length (tasks (startAll calls s))"
    and "task_id (tasks (startAll calls s) ! j) \<noteq> taskId"
  with startTask_Inr_others[OF startAll_distinctIds[OF assms] a]
  show "if status (tasks (startAll calls s) ! j) = Running
        then \<exists>now. tasks s' ! j = pausedRecord now (tasks (startAll calls s) ! j)
        else tasks s' ! j = tasks (startAll calls s) ! j" by blast
next
  fix clk taskId e s'
  assume "startTask clk taskId (startAll calls s) = (Inl e, s')"
  then show "runningCount s' \<le> runningCount (startAll calls s)" by (rule startTask_Inl_count)
qed

theorem startTask_one_running_witness:
  "distinctIds (mkStore [mkTask 1 ''a'' Running [openSession 1000] 0,
                         mkTask 2 ''b'' Running [openSession 2000] 0,
                         mkTask 3 ''c'' Paused [closedSession 0 500] 0])
   \<and> runningCount (snd (startTask (tick 9000) 3
        (startAll [] (mkStore [mkTask 1 ''a'' Running [openSession 1000] 0,
                               mkTask 2 ''b'' Running [openSession 2000] 0,
                               mkTask 3 ''c'' Paused [closedSession 0 500] 0])))) = 1
   \<and> status (tasks (snd (startTask (tick 9000) 3
        (startAll [] (mkStore [mkTask 1 ''a'' Running [openSession 1000] 0,
                               mkTask 2 ''b'' Running [openSession 2000] 0,
                               mkTask 3 ''c'' Paused [closedSession 0 500] 0])))) ! 0) = Paused
   \<and> status (tasks (snd (startTask (tick 9000) 3
        (startAll [] (mkStore [mkTask 1 ''a'' Running [openSession 1000] 0,
                               mkTask 2 ''b'' Running [openSession 2000] 0,
                               mkTask 3 ''c'' Paused [closedSession 0 500] 0])))) ! 1) = Paused
   \<and> runningCount (mkStore [mkTask 1 ''a'' Running [openSession 1000] 0,
                            mkTask 2 ''b'' Paused [closedSession 0 500] 0]) \<le> 1
   \<and> runningCount (startAll [(tick 9000, 2), (tick 12000, 2), (tick 15000, 1)]
        (mkStore [mkTask 1 ''a'' Running [openSession 1000] 0,
                  mkTask 2 ''b'' Paused [closedSession 0 500] 0])) \<le> 1"
proof -
  let ?s3 = "mkStore [mkTask 1 ''a'' Running [openSession 1000] 0,
                      mkTask 2 ''b'' Running [openSession 2000] 0,
                      mkTask 3 ''c'' Paused [closedSession 0 500] 0]"
  let ?s2 = "mkStore [mkTask 1 ''a'' Running [openSession 1000] 0,
                      mkTask 2 ''b'' Paused [closedSession 0 500] 0]"
  have d3: "distinctIds ?s3" by (simp add: distinctIds_def mkStore_def mkTask_def)
  have d2: "distinctIds ?s2" by (simp add: distinctIds_def mkStore_def mkTask_def)
  have c2: "runningCount ?s2 \<le> 1"
    by (simp add: runningCount_def getTasksByStatus_def mkStore_def mkTask_def)
  have "\<not> isl (fst (startTask (tick 9000) 3 (startAll [] ?s3)))"
    by (simp add: startTask_def getTask_def getTasksByStatus_def pauseTask_def updateTask_def
        setLastActiveTask_def mkStore_def mkTask_def openSession_def closedSession_def Let_def)
  then obtain r s' where st: "startTask (tick 9000) 3 (startAll [] ?s3) = (Inr r, s')"
    by (cases "startTask (tick 9000) 3 (startAll [] ?s3)"; cases "fst (startTask (tick 9000) 3 (startAll [] ?s3))") auto
  have f0: "0 < length (tasks (startAll [] ?s3))" "task_id (tasks (startAll [] ?s3) ! 0) \<noteq> 3"
      "status (tasks (startAll [] ?s3) ! 0) = Running"
    and f1: "1 < length (tasks (startAll [] ?s3))" "task_id (tasks (startAll [] ?s3) ! 1) \<noteq> 3"
      "status (tasks (startAll [] ?s3) ! 1) = Running"
    by (simp_all add: mkStore_def mkTask_def)
  from startTask_one_running [OF d3, of "[]"] st
  have one: "runningCount s' = 1"
    and oth: "\<forall>j<length (tasks (startAll [] ?s3)).
                 task_id (tasks (startAll [] ?s3) ! j) \<noteq> 3 \<longrightarrow>
                   (if status (tasks (startAll [] ?s3) ! j) = Running
                    then \<exists>now. tasks s' ! j = pausedRecord now (tasks (startAll [] ?s3) ! j)
                    else tasks s' ! j = tasks (startAll [] ?s3) ! j)"
    by blast+
  from oth f0 obtain n0 where "tasks s' ! 0 = pausedRecord n0 (tasks (startAll [] ?s3) ! 0)" by metis
  then have p0: "status (tasks s' ! 0) = Paused" by (simp only: pausedRecord_simps)
  from oth f1 obtain n1 where "tasks s' ! 1 = pausedRecord n1 (tasks (startAll [] ?s3) ! 1)" by metis
  then have p1: "status (tasks s' ! 1) = Paused" by (simp only: pausedRecord_simps)
  from startTask_one_running [OF d2, of "[(tick 9000, 2), (tick 12000, 2), (tick 15000, 1)]"] c2
  have "runningCount (startAll [(tick 9000, 2), (tick 12000, 2), (tick 15000, 1)] ?s2) \<le> 1"
    by blast
  with one p0 p1 st d3 c2 show ?thesis by simp
qed

text \<open>
  The claim as stated, for any initial store, fails in two ways. With two tasks running,
  a call on one of them raises "Task is already running" and both are still running. With
  two records of the same id, the first paused and the second running, the call on that
  id returns and both records are running.
\<close>

theorem startTask_any_store_counterexample:
  "distinctIds (mkStore [mkTask 1 ''a'' Running [openSession 1000] 0,
                         mkTask 2 ''b'' Running [openSession 2000] 0])
   \<and> fst (startTask (tick 9000) 1
        (mkStore [mkTask 1 ''a'' Running [openSession 1000] 0,
                  mkTask 2 ''b'' Running [openSession 2000] 0])) = Inl AlreadyRunning
   \<and> runningCount (startAll [(tick 9000, 1)]
        (mkStore [mkTask 1 ''a'' Running [openSession 1000] 0,
                  mkTask 2 ''b'' Running [openSession 2000] 0])) = 2
   \<and> runningCount (mkStore [mkTask 2 ''a'' Paused [closedSession 0 500] 0,
                            mkTask 2 ''b'' Running [openSession 2000] 0]) = 1
   \<and> \<not> isl (fst (startTask (tick 9000) 2
        (mkStore [mkTask 2 ''a'' Paused [closedSession 0 500] 0,
                  mkTask 2 ''b'' Running [openSession 2000] 0])))
   \<and> runningCount (startAll [(tick 9000, 2)]
        (mkStore [mkTask 2 ''a'' Paused [closedSession 0 500] 0,
                  mkTask 2 ''b'' Running [openSession 2000] 0])) = 2"
  by (simp add: startTask_def getTask_def getTasksByStatus_def pauseTask_def updateTask_def
      setLastActiveTask_def mkStore_def mkTask_def openSession_def closedSession_def Let_def
      distinctIds_def runningCount_def)

section \<open>Create, start, wait, pause\<close>

lemma createTask_ok:
  assumes "trim nm \<noteq> []"
  shows "createTask now nm u s =
     (Inr \<lparr>task_id = nextId s, name = trim nm, url = trim u, status = Created,
            sessions = [], totalTime = 0, createdAt = now,
            lastStarted = None, lastPaused = None, stoppedAt = None\<rparr>,
      s\<lparr>tasks := tasks s @ [\<lparr>task_id = nextId s, name = trim nm, url = trim u, status = Created,
            sessions = [], totalTime = 0, createdAt = now,
            lastStarted = None, lastPaused = None, stoppedAt = None\<rparr>],
        nextId := nextId s + 1\<rparr>)"
proof -
  from assms have "nm \<noteq> []" by (auto simp: trim_def)
  with assms show ?thesis by (simp add: createTask_def storage_createTask_def Let_def)
qed

lemma find_update_other:
  "i < length xs \<Longrightarrow> \<not> p y \<Longrightarrow> \<not> p (xs ! i) \<Longrightarrow> find p (xs[i := y]) = find p xs"
proof (induction xs arbitrary: i)
  case Nil
  then show ?case by simp
next
  case (Cons x xs)
  then show ?case by (cases i) auto
qed

lemma getTask_distinct:
  assumes "distinct (map task_id (tasks s))" and "t \<in> set (tasks s)"
  shows "getTask (task_id t) s = Some t"
proof -
  have "distinct (map task_id xs) \<Longrightarrow> t \<in> set xs \<Longrightarrow> find (\<lambda>u. task_id u = task_id t) xs = Some t" for xs
  proof (induction xs)
    case Nil
    then show ?case by simp
  next
    case (Cons x xs)
    then show ?case by (cases "x = t") (auto simp: image_iff)
  qed
  with assms show ?thesis by (simp add: getTask_def)
qed

lemma pauseRunning_succeeds:
  assumes "distinct (map task_id rs)"
    and "\<forall>r\<in>set rs. task_id r \<noteq> taskId \<longrightarrow>
           (\<exists>t. getTask (task_id r) s = Some t \<and> status t = Running \<and> lastOpen t)"
  shows "\<exists>s'. pauseRunning clk k taskId rs s
           = (Inr (k + length (filter (\<lambda>r. task_id r \<noteq> taskId) rs)), s')"
  using assms
proof (induction rs arbitrary: k s)
  case Nil
  then show ?case by simp
next
  case (Cons r rs)
  have drs: "distinct (map task_id rs)" using Cons.prems(1) by simp
  show ?case
  proof (cases "task_id r = taskId")
    case True
    from Cons.IH[OF drs, of s k] Cons.prems(2) True show ?thesis by simp
  next
    case False
    with Cons.prems(2) obtain t where t: "getTask (task_id r) s = Some t" "status t = Running" "lastOpen t"
      by auto
    from pauseTask_running_open[OF t, of "clk k"] obtain i where i:
      "i < length (tasks s)" "tasks s ! i = t"
      "pauseTask (clk k) (task_id r) s =
         (Inr (Some (pausedRecord (clk k) t)),
          s\<lparr>tasks := (tasks s)[i := pausedRecord (clk k) t], lastActiveTaskId := Some (task_id r)\<rparr>)"
      by blast
    let ?s1 = "s\<lparr>tasks := (tasks s)[i := pausedRecord (clk k) t], lastActiveTaskId := Some (task_id r)\<rparr>"
    have idt: "task_id t = task_id r" by (rule getTask_id[OF t(1)])
    have rest: "\<forall>r'\<in>set rs. task_id r' \<noteq> taskId \<longrightarrow>
           (\<exists>t. getTask (task_id r') ?s1 = Some t \<and> status t = Running \<and> lastOpen t)"
    proof (intro ballI impI)
      fix r'
      assume r': "r' \<in> set rs" "task_id r' \<noteq> taskId"
      have "task_id r \<notin> task_id ` set rs" using Cons.prems(1) by simp
      with r'(1) have ne: "task_id r' \<noteq> task_id r" by (metis imageI)
      have "getTask (task_id r') ?s1 = getTask (task_id r') s"
        using find_update_other[of i "tasks s" "\<lambda>u. task_id u = task_id r'" "pausedRecord (clk k) t"]
          i(1,2) idt ne by (simp add: getTask_def)
      with Cons.prems(2) r' show "\<exists>t. getTask (task_id r') ?s1 = Some t \<and> status t = Running \<and> lastOpen t"
        by simp
    qed
    from Cons.IH[OF drs rest, of "Suc k"] i(3) False show ?thesis by simp
  qed
qed

lemma startTask_ok:
  assumes "getTask taskId s = Some t" and "status t \<noteq> Running"
    and "pauseRunning clk 0 taskId (getTasksByStatus Running s) s = (Inr k, s')"
  shows "\<exists>i. findIndex (\<lambda>u. task_id u = taskId) (tasks s') = Some i \<and> i < length (tasks s')
          \<and> startTask clk taskId s =
              (Inr (Some (startedRecord (clk k) t)),
               s'\<lparr>tasks := (tasks s')[i := startedRecord (clk k) t], lastActiveTaskId := Some taskId\<rparr>)"
proof (cases rule: startTask_cases[of clk taskId s])
  case (err e s'')
  from assms have "\<not> isl (fst (startTask clk taskId s))"
    by (simp add: startTask_def Let_def split: prod.splits)
  with err(1) show ?thesis by simp
next
  case (ok t0 i k0 s0)
  from ok(1,7) assms have eq: "t0 = t" "k0 = k" "s0 = s'" by simp_all
  have "findIndex (\<lambda>u. task_id u = taskId) (tasks s') = Some i"
    using findIndex_same_ids[OF pausedWhere_ids[OF ok(8)], of taskId] ok(3) eq by simp
  moreover have "i < length (tasks s')" using pausedWhere_length[OF ok(8)] ok(4) eq by simp
  ultimately show ?thesis using ok(9) eq by blast
qed

lemma find_append_new:
  "find p xs = None \<Longrightarrow> p y \<Longrightarrow> find p (xs @ [y]) = Some y"
  by (induction xs) (auto split: if_splits)

lemma storeInv_fresh:
  assumes "storeInv s"
  shows "find (\<lambda>u. task_id u = nextId s) (tasks s) = None"
  using assms by (auto simp: storeInv_def list_all_iff find_None_iff)

text \<open>
  Claim C3. On a store built by the operations (\<open>storeInv\<close>), creating a task with a
  name that is not blank, starting it and pausing it \<open>delta\<close> milliseconds after the
  clock reading of the start gives a paused task whose \<open>totalTime\<close> is the whole number
  of seconds in \<open>delta\<close> and whose only session is closed with that duration. The start
  reads the clock after one reading for each task it pauses, hence \<open>clk (runningCount s)\<close>.
\<close>

theorem create_start_pause:
  assumes "storeInv s" and "trim nm \<noteq> []"
  shows "\<exists>t s1 r2 s2 t3 s3.
           createTask now0 nm u s = (Inr t, s1)
         \<and> name t = trim nm \<and> status t = Created \<and> sessions t = [] \<and> totalTime t = 0
         \<and> startTask clk (task_id t) s1 = (Inr r2, s2)
         \<and> pauseTask (clk (runningCount s) + delta) (task_id t) s2 = (Inr (Some t3), s3)
         \<and> getTask (task_id t) s3 = Some t3
         \<and> status t3 = Paused
         \<and> totalTime t3 = delta div 1000
         \<and> sessions t3 = [\<lparr>startTime = clk (runningCount s),
                             endTime = Some (clk (runningCount s) + delta),
                             duration = totalTime t3\<rparr>]"
proof -
  let ?t = "\<lparr>task_id = nextId s, name = trim nm, url = trim u, status = Created,
            sessions = [], totalTime = 0, createdAt = now0,
            lastStarted = None, lastPaused = None, stoppedAt = None\<rparr>"
  let ?s1 = "s\<lparr>tasks := tasks s @ [?t], nextId := nextId s + 1\<rparr>"
  let ?id = "nextId s"
  have cr: "createTask now0 nm u s = (Inr ?t, ?s1)" by (rule createTask_ok[OF assms(2)])
  have d: "distinct (map task_id (tasks s))" using assms(1) by (simp add: storeInv_def distinctIds_def)
  have fresh: "\<forall>x\<in>set (tasks s). task_id x \<noteq> ?id"
    using assms(1) by (auto simp: storeInv_def list_all_iff)
  have d1: "distinct (map task_id (tasks ?s1))" using d fresh by auto
  have g1: "getTask ?id ?s1 = Some ?t"
    using find_append_new[OF storeInv_fresh[OF assms(1)], of ?t] by (simp add: getTask_def)
  have R: "getTasksByStatus Running ?s1 = getTasksByStatus Running s"
    by (simp add: getTasksByStatus_def)
  have dR: "distinct (map task_id (getTasksByStatus Running ?s1))"
    unfolding R getTasksByStatus_def using d by (simp add: distinct_map_filter)
  have all: "\<forall>r\<in>set (getTasksByStatus Running ?s1). task_id r \<noteq> ?id \<longrightarrow>
           (\<exists>t. getTask (task_id r) ?s1 = Some t \<and> status t = Running \<and> lastOpen t)"
  proof (intro ballI impI)
    fix r
    assume r: "r \<in> set (getTasksByStatus Running ?s1)"
    then have mem: "r \<in> set (tasks ?s1)" and run: "status r = Running"
      by (auto simp: getTasksByStatus_def)
    then have "r \<in> set (tasks s)" by auto
    then have "lastOpen r" using assms(1) run by (auto simp: storeInv_def list_all_iff)
    moreover have "getTask (task_id r) ?s1 = Some r" by (rule getTask_distinct[OF d1 mem])
    ultimately show "\<exists>t. getTask (task_id r) ?s1 = Some t \<and> status t = Running \<and> lastOpen t"
      using run by simp
  qed
  have cnt: "length (filter (\<lambda>r. task_id r \<noteq> ?id) (getTasksByStatus Running ?s1)) = runningCount s"
  proof -
    have "filter (\<lambda>r. task_id r \<noteq> ?id) (getTasksByStatus Running s) = getTasksByStatus Running s"
      using fresh by (intro filter_True) (simp add: getTasksByStatus_def)
    then show ?thesis by (simp add: R runningCount_def)
  qed
  from pauseRunning_succeeds[OF dR all, of clk 0] cnt
  obtain s' where loop: "pauseRunning clk 0 ?id (getTasksByStatus Running ?s1) ?s1
      = (Inr (runningCount s), s')" by auto
  let ?now = "clk (runningCount s)"
  from startTask_ok[OF g1 _ loop] obtain i where i:
    "findIndex (\<lambda>u. task_id u = ?id) (tasks s') = Some i" "i < length (tasks s')"
    "startTask clk ?id ?s1 =
       (Inr (Some (startedRecord ?now ?t)),
        s'\<lparr>tasks := (tasks s')[i := startedRecord ?now ?t], lastActiveTaskId := Some ?id\<rparr>)"
    by auto
  let ?s2 = "s'\<lparr>tasks := (tasks s')[i := startedRecord ?now ?t], lastActiveTaskId := Some ?id\<rparr>"
  have g2: "getTask ?id ?s2 = Some (startedRecord ?now ?t)"
    using getTask_after_update(1)[OF i(1), of "startedRecord ?now ?t" "Some ?id"] by simp
  have lo: "lastOpen (startedRecord ?now ?t)" by (simp add: lastOpen_def)
  from pauseTask_running_open[OF g2 _ lo, of "?now + delta"] obtain j where j:
    "findIndex (\<lambda>u. task_id u = ?id) (tasks ?s2) = Some j"
    "pauseTask (?now + delta) ?id ?s2 =
       (Inr (Some (pausedRecord (?now + delta) (startedRecord ?now ?t))),
        ?s2\<lparr>tasks := (tasks ?s2)[j := pausedRecord (?now + delta) (startedRecord ?now ?t)],
             lastActiveTaskId := Some ?id\<rparr>)"
    by auto
  let ?t3 = "pausedRecord (?now + delta) (startedRecord ?now ?t)"
  let ?s3 = "?s2\<lparr>tasks := (tasks ?s2)[j := ?t3], lastActiveTaskId := Some ?id\<rparr>"
  have g3: "getTask ?id ?s3 = Some ?t3"
    using getTask_after_update(1)[OF j(1), of ?t3 "Some ?id"] by simp
  have tt: "totalTime ?t3 = delta div 1000" by (simp add: pausedRecord_def startedRecord_def)
  have ss: "sessions ?t3 = [\<lparr>startTime = ?now, endTime = Some (?now + delta), duration = totalTime ?t3\<rparr>]"
    by (simp add: pausedRecord_def startedRecord_def)
  have "createTask now0 nm u s = (Inr ?t, ?s1)
         \<and> name ?t = trim nm \<and> status ?t = Created \<and> sessions ?t = [] \<and> totalTime ?t = 0
         \<and> startTask clk (task_id ?t) ?s1 = (Inr (Some (startedRecord ?now ?t)), ?s2)
         \<and> pauseTask (?now + delta) (task_id ?t) ?s2 = (Inr (Some ?t3), ?s3)
         \<and> getTask (task_id ?t) ?s3 = Some ?t3
         \<and> status ?t3 = Paused
         \<and> totalTime ?t3 = delta div 1000
         \<and> sessions ?t3 = [\<lparr>startTime = ?now, endTime = Some (?now + delta), duration = totalTime ?t3\<rparr>]"
    using cr i(3) j(2) g3 tt ss by simp
  then show ?thesis by blast
qed

theorem create_start_pause_witness:
  "storeInv (mkStore [mkTask 1 ''x'' Running [openSession 1000] 0])
   \<and> trim ''A'' \<noteq> []
   \<and> (\<exists>t s1 r2 s2 t3 s3.
         createTask 5000 ''A'' [] (mkStore [mkTask 1 ''x'' Running [openSession 1000] 0]) = (Inr t, s1)
       \<and> startTask (tick 9000) (task_id t) s1 = (Inr r2, s2)
       \<and> pauseTask 16501 (task_id t) s2 = (Inr (Some t3), s3)
       \<and> getTask (task_id t) s3 = Some t3
       \<and> totalTime t3 = 7
       \<and> sessions t3 = [\<lparr>startTime = 9001, endTime = Some 16501, duration = 7\<rparr>])"
proof -
  let ?s = "mkStore [mkTask 1 ''x'' Running [openSession 1000] 0]"
  have inv: "storeInv ?s"
    by (simp add: storeInv_def distinctIds_def lastOpen_def mkStore_def mkTask_def openSession_def)
  have nb: "trim ''A'' \<noteq> []" by (simp add: trim_def isWhiteSpace_def)
  have rc: "tick 9000 (runningCount ?s) = 9001"
    by (simp add: tick_def runningCount_def getTasksByStatus_def mkStore_def mkTask_def)
  from create_start_pause [OF inv nb, of 5000 "[]" "tick 9000" 7500]
  obtain t s1 r2 s2 t3 s3 where
    "createTask 5000 ''A'' [] ?s = (Inr t, s1)"
    "startTask (tick 9000) (task_id t) s1 = (Inr r2, s2)"
    "pauseTask (tick 9000 (runningCount ?s) + 7500) (task_id t) s2 = (Inr (Some t3), s3)"
    "getTask (task_id t) s3 = Some t3"
    "totalTime t3 = 7500 div 1000"
    "sessions t3 = [\<lparr>startTime = tick 9000 (runningCount ?s),
                      endTime = Some (tick 9000 (runningCount ?s) + 7500),
                      duration = totalTime t3\<rparr>]"
    by blast
  then have "createTask 5000 ''A'' [] ?s = (Inr t, s1)
       \<and> startTask (tick 9000) (task_id t) s1 = (Inr r2, s2)
       \<and> pauseTask 16501 (task_id t) s2 = (Inr (Some t3), s3)
       \<and> getTask (task_id t) s3 = Some t3
       \<and> totalTime t3 = 7
       \<and> sessions t3 = [\<lparr>startTime = 9001, endTime = Some 16501, duration = 7\<rparr>]"
    unfolding rc by simp
  then show ?thesis using inv nb by blast
qed

section \<open>Total time and closed sessions\<close>

lemma closedTotal_closes:
  assumes "lastOpen t" and "closesSession t t'"
  shows "closedTotal t' - closedTotal t = totalTime t' - totalTime t"
proof -
  from assms(2) obtain now where n:
    "totalTime t' = totalTime t + (now - startTime (last (sessions t))) div 1000"
    "sessions t' = butlast (sessions t) @
               [(last (sessions t))\<lparr>endTime := Some now,
                   duration := (now - startTime (last (sessions t))) div 1000\<rparr>]"
    by (auto simp: closesSession_def)
  from assms(1) have ne: "sessions t \<noteq> []" and op: "endTime (last (sessions t)) = None"
    by (simp_all add: lastOpen_def)
  have "filter (\<lambda>se. endTime se \<noteq> None) (sessions t)
      = filter (\<lambda>se. endTime se \<noteq> None) (butlast (sessions t) @ [last (sessions t)])"
    using ne by simp
  also have "\<dots> = filter (\<lambda>se. endTime se \<noteq> None) (butlast (sessions t))"
    using op by simp
  finally have a: "closedTotal t = sum_list (map duration (filter (\<lambda>se. endTime se \<noteq> None) (butlast (sessions t))))"
    by (simp add: closedTotal_def)
  have b: "closedTotal t' = sum_list (map duration (filter (\<lambda>se. endTime se \<noteq> None) (butlast (sessions t))))
      + (now - startTime (last (sessions t))) div 1000"
    by (simp add: closedTotal_def n(2))
  from a b n(1) show ?thesis by simp
qed

lemma keepsOrCloses_inv:
  "keepsOrCloses Q t t' \<Longrightarrow> totalTime t = closedTotal t \<Longrightarrow> totalTime t' = closedTotal t'"
  using closedTotal_closes[of t t'] by (auto simp: keepsOrCloses_def)

lemma keepsOrCloses_refl: "keepsOrCloses Q t t"
  by (simp add: keepsOrCloses_def)

lemma closesSession_pausedRecord: "closesSession t (pausedRecord now t)"
  by (auto simp: closesSession_def pausedRecord_def)

lemma pausedStep_keepsOrCloses: "pausedStep P t t' \<Longrightarrow> keepsOrCloses P t t'"
  using closesSession_pausedRecord by (auto simp: pausedStep_def keepsOrCloses_def)

lemma pausedWhere_keepsOrCloses:
  "pausedWhere P s s' \<Longrightarrow> list_all2 (keepsOrCloses P) (tasks s) (tasks s')"
  unfolding pausedWhere_def using pausedStep_keepsOrCloses
  by (metis (no_types, lifting) list_all2_mono)

lemma list_all2_update_right:
  assumes "list_all2 R xs ys" and "i < length xs" and "R (xs ! i) r"
  shows "list_all2 R xs (ys[i := r])"
proof -
  have "list_all2 R (xs[i := xs ! i]) (ys[i := r])"
    using assms by (intro list_all2_update_cong) simp_all
  then show ?thesis by simp
qed

lemma stopTask_store:
  "snd (stopTask clk taskId s) = s
   \<or> (\<exists>i r. i < length (tasks s) \<and> task_id (tasks s ! i) = taskId
        \<and> tasks (snd (stopTask clk taskId s)) = (tasks s)[i := r]
        \<and> nextId (snd (stopTask clk taskId s)) = nextId s
        \<and> (status (tasks s ! i) \<noteq> Running
              \<and> r = (tasks s ! i)\<lparr>status := Stopped, stoppedAt := Some (clk 0)\<rparr>
           \<or> status (tasks s ! i) = Running \<and> lastOpen (tasks s ! i)
              \<and> r = (pausedRecord (clk 0) (tasks s ! i))\<lparr>status := Stopped, stoppedAt := Some (clk 1)\<rparr>))"
proof (cases "getTask taskId s")
  case None
  then show ?thesis by (simp add: stopTask_def)
next
  case (Some t)
  have idt: "task_id t = taskId" by (rule getTask_id[OF Some])
  show ?thesis
  proof (cases "status t = Running")
    case False
    from updateTask_found[OF Some, of "\<lambda>u. u\<lparr>status := Stopped, stoppedAt := Some (clk 0)\<rparr>"]
    obtain i where i: "i < length (tasks s)" "tasks s ! i = t"
      "updateTask taskId (\<lambda>u. u\<lparr>status := Stopped, stoppedAt := Some (clk 0)\<rparr>) s
         = (Some (t\<lparr>status := Stopped, stoppedAt := Some (clk 0)\<rparr>),
            s\<lparr>tasks := (tasks s)[i := t\<lparr>status := Stopped, stoppedAt := Some (clk 0)\<rparr>]\<rparr>)"
      by blast
    have "tasks (snd (stopTask clk taskId s)) = (tasks s)[i := t\<lparr>status := Stopped, stoppedAt := Some (clk 0)\<rparr>]"
      and "nextId (snd (stopTask clk taskId s)) = nextId s"
      using Some False i(3) by (simp_all add: stopTask_def)
    with i(1,2) idt False show ?thesis by blast
  next
    case True
    show ?thesis
    proof (cases rule: pauseTask_cases[of "clk 0" taskId s])
      case (err e)
      with Some True show ?thesis by (simp add: stopTask_def)
    next
      case (ok i t0)
      from ok(4) Some have t0: "t0 = t" by simp
      let ?p = "pausedRecord (clk 0) t"
      let ?s1 = "s\<lparr>tasks := (tasks s)[i := ?p], lastActiveTaskId := Some taskId\<rparr>"
      have fi: "findIndex (\<lambda>u. task_id u = taskId) (tasks ?s1) = Some i"
        using findIndex_update_first[OF ok(1), of ?p] idt by simp
      have "updateTask taskId (\<lambda>u. u\<lparr>status := Stopped, stoppedAt := Some (clk 1)\<rparr>) ?s1
          = (Some (?p\<lparr>status := Stopped, stoppedAt := Some (clk 1)\<rparr>),
             ?s1\<lparr>tasks := (tasks s)[i := ?p\<lparr>status := Stopped, stoppedAt := Some (clk 1)\<rparr>]\<rparr>)"
        using fi ok(2) by (simp add: updateTask_def Let_def)
      then have "tasks (snd (stopTask clk taskId s)) = (tasks s)[i := ?p\<lparr>status := Stopped, stoppedAt := Some (clk 1)\<rparr>]"
        and "nextId (snd (stopTask clk taskId s)) = nextId s"
        using Some True ok(7) t0 by (simp_all add: stopTask_def)
      with ok(2,3,5,6) t0 idt show ?thesis by blast
    qed
  qed
qed

lemma unstopTask_store:
  "snd (unstopTask taskId s) = s
   \<or> (\<exists>i. i < length (tasks s) \<and> task_id (tasks s ! i) = taskId \<and> status (tasks s ! i) = Stopped
        \<and> tasks (snd (unstopTask taskId s)) = (tasks s)[i := (tasks s ! i)\<lparr>status := Paused, stoppedAt := None\<rparr>]
        \<and> nextId (snd (unstopTask taskId s)) = nextId s)"
proof (cases "getTask taskId s")
  case None
  then show ?thesis by (simp add: unstopTask_def)
next
  case (Some t)
  show ?thesis
  proof (cases "status t = Stopped")
    case False
    with Some show ?thesis by (simp add: unstopTask_def)
  next
    case True
    from updateTask_found[OF Some, of "\<lambda>u. u\<lparr>status := Paused, stoppedAt := None\<rparr>"]
    obtain i where i: "i < length (tasks s)" "tasks s ! i = t"
      "updateTask taskId (\<lambda>u. u\<lparr>status := Paused, stoppedAt := None\<rparr>) s
         = (Some (t\<lparr>status := Paused, stoppedAt := None\<rparr>),
            s\<lparr>tasks := (tasks s)[i := t\<lparr>status := Paused, stoppedAt := None\<rparr>]\<rparr>)"
      by blast
    have "tasks (snd (unstopTask taskId s)) = (tasks s)[i := t\<lparr>status := Paused, stoppedAt := None\<rparr>]"
      and "nextId (snd (unstopTask taskId s)) = nextId s"
      using Some True i(3) by (simp_all add: unstopTask_def)
    with i(1,2) True getTask_id[OF Some] show ?thesis by blast
  qed
qed

lemma createTask_store:
  "snd (createTask now nm u s) = s
   \<or> (\<exists>t. tasks (snd (createTask now nm u s)) = tasks s @ [t] \<and> task_id t = nextId s
        \<and> status t = Created \<and> sessions t = [] \<and> totalTime t = 0
        \<and> nextId (snd (createTask now nm u s)) = nextId s + 1)"
  by (simp add: createTask_def storage_createTask_def Let_def)

lemma pausedIds_fun:
  "pausedIds (OpStart taskId) = (\<lambda>i. i \<noteq> taskId)"
  "pausedIds (OpPause taskId) = (\<lambda>i. i = taskId)"
  "pausedIds (OpStop taskId) = (\<lambda>i. i = taskId)"
  "pausedIds (OpCreate nm u) = (\<lambda>i. False)"
  "pausedIds (OpUnstop taskId) = (\<lambda>i. False)"
  by (rule ext, simp)+

lemma closedTotal_sessions: "sessions t' = sessions t \<Longrightarrow> closedTotal t' = closedTotal t"
  by (simp add: closedTotal_def)

lemma closesSession_cong:
  "closesSession t t' \<Longrightarrow> totalTime t'' = totalTime t' \<Longrightarrow> sessions t'' = sessions t'
     \<Longrightarrow> closesSession t t''"
  by (auto simp: closesSession_def)

lemma perform_effect:
  "\<exists>new. list_all2 (keepsOrCloses (pausedIds op)) (tasks s) (take (length (tasks s)) (tasks (perform clk op s)))
        \<and> tasks (perform clk op s) = take (length (tasks s)) (tasks (perform clk op s)) @ new
        \<and> (\<forall>t\<in>set new. totalTime t = 0 \<and> sessions t = [])"
proof (cases op)
  case (OpCreate nm u)
  have r: "list_all2 (keepsOrCloses (pausedIds op)) (tasks s) (tasks s)"
    by (simp add: list_all2_refl keepsOrCloses_refl)
  from createTask_store[of "clk 0" nm u s] show ?thesis
  proof
    assume "snd (createTask (clk 0) nm u s) = s"
    with r OpCreate show ?thesis by simp
  next
    assume "\<exists>t. tasks (snd (createTask (clk 0) nm u s)) = tasks s @ [t] \<and> task_id t = nextId s
        \<and> status t = Created \<and> sessions t = [] \<and> totalTime t = 0
        \<and> nextId (snd (createTask (clk 0) nm u s)) = nextId s + 1"
    then obtain t where "tasks (snd (createTask (clk 0) nm u s)) = tasks s @ [t]"
      "sessions t = []" "totalTime t = 0" by blast
    with r OpCreate show ?thesis by simp
  qed
next
  case (OpStart taskId)
  show ?thesis
  proof (cases rule: startTask_cases[of clk taskId s])
    case (err e s')
    have "list_all2 (keepsOrCloses (pausedIds op)) (tasks s) (tasks s')"
      using pausedWhere_keepsOrCloses[OF err(2)] OpStart
      by (simp add: list_all2_conv_all_nth keepsOrCloses_def)
    with err(1) OpStart pausedWhere_length[OF err(2)] show ?thesis by simp
  next
    case (ok t i k s')
    have a: "list_all2 (keepsOrCloses (pausedIds op)) (tasks s) (tasks s')"
      using pausedWhere_keepsOrCloses[OF ok(8)] OpStart
      by (simp add: list_all2_conv_all_nth keepsOrCloses_def)
    have "keepsOrCloses (pausedIds op) (tasks s ! i) (startedRecord (clk k) t)"
      using ok(5) by (simp add: keepsOrCloses_def closedTotal_def)
    from list_all2_update_right[OF a ok(4) this]
    have "list_all2 (keepsOrCloses (pausedIds op)) (tasks s) ((tasks s')[i := startedRecord (clk k) t])" .
    with ok(9) OpStart pausedWhere_length[OF ok(8)] show ?thesis by simp
  qed
next
  case (OpPause taskId)
  have pw: "pausedWhere (\<lambda>i. i = taskId) s (snd (pauseTask (clk 0) taskId s))"
    by (rule pauseTask_pausedWhere)
  have "list_all2 (keepsOrCloses (pausedIds op)) (tasks s) (tasks (snd (pauseTask (clk 0) taskId s)))"
    using pausedWhere_keepsOrCloses[OF pw] OpPause
    by (simp add: list_all2_conv_all_nth keepsOrCloses_def)
  with OpPause pausedWhere_length[OF pw] show ?thesis by simp
next
  case (OpStop taskId)
  have r: "list_all2 (keepsOrCloses (pausedIds op)) (tasks s) (tasks s)"
    by (simp add: list_all2_refl keepsOrCloses_refl)
  from stopTask_store[of clk taskId s] show ?thesis
  proof
    assume "snd (stopTask clk taskId s) = s"
    with r OpStop show ?thesis by simp
  next
    assume "\<exists>i r. i < length (tasks s) \<and> task_id (tasks s ! i) = taskId
        \<and> tasks (snd (stopTask clk taskId s)) = (tasks s)[i := r]
        \<and> nextId (snd (stopTask clk taskId s)) = nextId s
        \<and> (status (tasks s ! i) \<noteq> Running
              \<and> r = (tasks s ! i)\<lparr>status := Stopped, stoppedAt := Some (clk 0)\<rparr>
           \<or> status (tasks s ! i) = Running \<and> lastOpen (tasks s ! i)
              \<and> r = (pausedRecord (clk 0) (tasks s ! i))\<lparr>status := Stopped, stoppedAt := Some (clk 1)\<rparr>)"
    then obtain i r' where i: "i < length (tasks s)" "task_id (tasks s ! i) = taskId"
      "tasks (snd (stopTask clk taskId s)) = (tasks s)[i := r']"
      "status (tasks s ! i) \<noteq> Running
              \<and> r' = (tasks s ! i)\<lparr>status := Stopped, stoppedAt := Some (clk 0)\<rparr>
           \<or> status (tasks s ! i) = Running \<and> lastOpen (tasks s ! i)
              \<and> r' = (pausedRecord (clk 0) (tasks s ! i))\<lparr>status := Stopped, stoppedAt := Some (clk 1)\<rparr>"
      by blast
    have "keepsOrCloses (pausedIds op) (tasks s ! i) r'"
    proof -
      from i(4) show ?thesis
      proof
        assume "status (tasks s ! i) \<noteq> Running
              \<and> r' = (tasks s ! i)\<lparr>status := Stopped, stoppedAt := Some (clk 0)\<rparr>"
        then show ?thesis by (simp add: keepsOrCloses_def closedTotal_def)
      next
        assume b: "status (tasks s ! i) = Running \<and> lastOpen (tasks s ! i)
              \<and> r' = (pausedRecord (clk 0) (tasks s ! i))\<lparr>status := Stopped, stoppedAt := Some (clk 1)\<rparr>"
        have "closesSession (tasks s ! i) r'"
          by (rule closesSession_cong[OF closesSession_pausedRecord[of "tasks s ! i" "clk 0"]])
             (use b in simp_all)
        with b i(2) OpStop show ?thesis by (simp add: keepsOrCloses_def)
      qed
    qed
    from list_all2_update_right[OF r i(1) this] i(3) OpStop show ?thesis by (simp add: pausedIds_fun)
  qed
next
  case (OpUnstop taskId)
  have r: "list_all2 (keepsOrCloses (pausedIds op)) (tasks s) (tasks s)"
    by (simp add: list_all2_refl keepsOrCloses_refl)
  from unstopTask_store[of taskId s] show ?thesis
  proof
    assume "snd (unstopTask taskId s) = s"
    with r OpUnstop show ?thesis by simp
  next
    assume "\<exists>i. i < length (tasks s) \<and> task_id (tasks s ! i) = taskId \<and> status (tasks s ! i) = Stopped
        \<and> tasks (snd (unstopTask taskId s)) = (tasks s)[i := (tasks s ! i)\<lparr>status := Paused, stoppedAt := None\<rparr>]
        \<and> nextId (snd (unstopTask taskId s)) = nextId s"
    then obtain i where i: "i < length (tasks s)"
      "tasks (snd (unstopTask taskId s)) = (tasks s)[i := (tasks s ! i)\<lparr>status := Paused, stoppedAt := None\<rparr>]"
      by blast
    have "keepsOrCloses (pausedIds op) (tasks s ! i) ((tasks s ! i)\<lparr>status := Paused, stoppedAt := None\<rparr>)"
      by (simp add: keepsOrCloses_def closedTotal_def)
    from list_all2_update_right[OF r i(1) this] i(2) OpUnstop show ?thesis by (simp add: pausedIds_fun)
  qed
qed

lemma totalTimeInv_perform:
  assumes "totalTimeInv s"
  shows "totalTimeInv (perform clk op s)"
proof -
  let ?s' = "perform clk op s"
  let ?n = "length (tasks s)"
  from perform_effect[of op s clk] obtain new where
    a: "list_all2 (keepsOrCloses (pausedIds op)) (tasks s) (take ?n (tasks ?s'))"
    and b: "tasks ?s' = take ?n (tasks ?s') @ new"
    and c: "\<forall>t\<in>set new. totalTime t = 0 \<and> sessions t = []"
    by blast
  have len: "length (take ?n (tasks ?s')) = ?n" using list_all2_lengthD[OF a] by simp
  show ?thesis
  proof -
    have "\<forall>t\<in>set (take ?n (tasks ?s')). totalTime t = closedTotal t"
    proof
      fix t
      assume "t \<in> set (take ?n (tasks ?s'))"
      then obtain j where j: "j < ?n" "take ?n (tasks ?s') ! j = t"
        using len by (auto simp: in_set_conv_nth)
      have "totalTime (tasks s ! j) = closedTotal (tasks s ! j)"
        using assms j(1) by (simp add: totalTimeInv_def list_all_length)
      with keepsOrCloses_inv[OF list_all2_nthD[OF a j(1)]] j(2)
      show "totalTime t = closedTotal t" by simp
    qed
    moreover have "\<forall>t\<in>set new. totalTime t = closedTotal t" using c by (simp add: closedTotal_def)
    ultimately have "\<forall>t\<in>set (take ?n (tasks ?s') @ new). totalTime t = closedTotal t" by auto
    with b show ?thesis by (simp add: totalTimeInv_def list_all_iff)
  qed
qed

text \<open>
  Claim C2. If \<open>totalTime\<close> is the sum of the durations of the closed sessions for every
  task of the store, it is so after every operation; an open session never counts. An
  operation changes the \<open>totalTime\<close> of a record only by closing its open session, which
  is what \<open>pauseTask\<close> does: for the target of a pause or of a stop, and for the other
  running tasks that a start pauses first. The task being started, and every task under
  create and unstop, keep their \<open>totalTime\<close>; a new task has \<open>totalTime\<close> 0.
\<close>

theorem totalTime_closed_sessions:
  assumes "totalTimeInv s"
  shows "totalTimeInv (perform clk op s)
       \<and> length (tasks s) \<le> length (tasks (perform clk op s))
       \<and> (\<forall>j<length (tasks s).
             totalTime (tasks (perform clk op s) ! j) = totalTime (tasks s ! j)
           \<or> pausedBy op (tasks s ! j) (tasks (perform clk op s) ! j))
       \<and> (\<forall>j. length (tasks s) \<le> j \<and> j < length (tasks (perform clk op s)) \<longrightarrow>
             totalTime (tasks (perform clk op s) ! j) = 0)"
proof -
  let ?s' = "perform clk op s"
  let ?n = "length (tasks s)"
  from perform_effect[of op s clk] obtain new where
    a: "list_all2 (keepsOrCloses (pausedIds op)) (tasks s) (take ?n (tasks ?s'))"
    and b: "tasks ?s' = take ?n (tasks ?s') @ new"
    and c: "\<forall>t\<in>set new. totalTime t = 0 \<and> sessions t = []"
    by blast
  have len: "length (take ?n (tasks ?s')) = ?n" using list_all2_lengthD[OF a] by simp
  then have le: "?n \<le> length (tasks ?s')" by simp
  have old: "keepsOrCloses (pausedIds op) (tasks s ! j) (tasks ?s' ! j)" if "j < ?n" for j
    using list_all2_nthD[OF a that] that by simp
  have inv: "totalTimeInv ?s'" using assms by (rule totalTimeInv_perform)
  have frame: "totalTime (tasks ?s' ! j) = totalTime (tasks s ! j)
           \<or> pausedBy op (tasks s ! j) (tasks ?s' ! j)" if "j < ?n" for j
    using old[OF that] by (cases op) (auto simp: keepsOrCloses_def pausedBy_def)
  have fresh: "totalTime (tasks ?s' ! j) = 0" if "?n \<le> j" "j < length (tasks ?s')" for j
  proof -
    have "tasks ?s' ! j = new ! (j - ?n)"
      using that len by (subst b) (simp add: nth_append)
    moreover have "j - ?n < length new" using that len b
      by (metis add_diff_inverse_nat length_append nat_add_left_cancel_less not_less)
    ultimately show ?thesis using c by (metis nth_mem)
  qed
  from inv le frame fresh show ?thesis by blast
qed

theorem totalTime_closed_sessions_witness:
  "totalTimeInv (mkStore [mkTask 1 ''a'' Running [closedSession 0 4000, openSession 5000] 4,
                          mkTask 2 ''b'' Paused [closedSession 0 2000] 2])
   \<and> totalTimeInv (perform (tick 9000) (OpStart 2)
        (mkStore [mkTask 1 ''a'' Running [closedSession 0 4000, openSession 5000] 4,
                  mkTask 2 ''b'' Paused [closedSession 0 2000] 2]))
   \<and> pausedBy (OpStart 2)
        (tasks (mkStore [mkTask 1 ''a'' Running [closedSession 0 4000, openSession 5000] 4,
                         mkTask 2 ''b'' Paused [closedSession 0 2000] 2]) ! 0)
        (tasks (perform (tick 9000) (OpStart 2)
           (mkStore [mkTask 1 ''a'' Running [closedSession 0 4000, openSession 5000] 4,
                     mkTask 2 ''b'' Paused [closedSession 0 2000] 2])) ! 0)"
proof -
  let ?s = "mkStore [mkTask 1 ''a'' Running [closedSession 0 4000, openSession 5000] 4,
                     mkTask 2 ''b'' Paused [closedSession 0 2000] 2]"
  have inv: "totalTimeInv ?s"
    by (simp add: totalTimeInv_def closedTotal_def mkStore_def mkTask_def closedSession_def
        openSession_def)
  have len: "0 < length (tasks ?s)" by (simp add: mkStore_def)
  have ch: "totalTime (tasks (perform (tick 9000) (OpStart 2) ?s) ! 0) \<noteq> totalTime (tasks ?s ! 0)"
    by (simp add: startTask_def getTask_def getTasksByStatus_def pauseTask_def updateTask_def
        setLastActiveTask_def mkStore_def mkTask_def openSession_def closedSession_def Let_def
        tick_def)
  from totalTime_closed_sessions [OF inv, of "tick 9000" "OpStart 2"] len ch
  have "totalTimeInv (perform (tick 9000) (OpStart 2) ?s)"
    and "pausedBy (OpStart 2) (tasks ?s ! 0) (tasks (perform (tick 9000) (OpStart 2) ?s) ! 0)"
    by blast+
  with inv show ?thesis by blast
qed

section \<open>The command \<open>start\<close> with an argument\<close>

text \<open>
  The line command loop reports an unresolved argument of digits as not found and
  creates nothing. The terminal control loop matches the argument against the names of
  the listed tasks only, and creates a task for any argument that matches none; the
  statement for stores that satisfy the invariants comes after these are proved.
\<close>

lemma trim_digits: "allDigits str \<Longrightarrow> trim str = str"
proof -
  assume a: "allDigits str"
  have nd: "isDigit c \<Longrightarrow> \<not> isWhiteSpace c" for c
    by (auto simp: isDigit_def isWhiteSpace_def Let_def)
  from a have ne: "str \<noteq> []" and ad: "\<forall>c\<in>set str. isDigit c"
    by (simp_all add: allDigits_def list_all_iff)
  then have h: "\<not> isWhiteSpace (hd str)" and l: "\<not> isWhiteSpace (last str)"
    using nd by auto
  from ne h have 1: "dropWhile isWhiteSpace str = str" by (cases str) auto
  from ne l have "\<not> isWhiteSpace (hd (rev str))" by (simp add: hd_rev)
  with ne have 2: "dropWhile isWhiteSpace (rev str) = rev str" by (cases "rev str") auto
  show ?thesis by (simp add: trim_def 1 2)
qed


lemma pausedStep_name: "pausedStep P a b \<Longrightarrow> name b = name a"
  by (auto simp: pausedStep_def)

lemma pausedWhere_names: "pausedWhere P s s' \<Longrightarrow> map name (tasks s') = map name (tasks s)"
proof -
  have "list_all2 (pausedStep P) xs ys \<Longrightarrow> map name ys = map name xs" for xs ys
    by (induction xs ys rule: list_all2_induct) (simp_all add: pausedStep_name)
  then show "pausedWhere P s s' \<Longrightarrow> map name (tasks s') = map name (tasks s)"
    by (simp add: pausedWhere_def)
qed

lemma startTaskByName_creates:
  assumes "find (\<lambda>task. includesStr (toLowerCase (sName task)) (toLowerCase taskName)) (vm_tasks vm) = None"
    and "trim taskName \<noteq> []"
  shows "\<exists>t. tasks (snd (snd (startTaskByName clk todayStart taskName (vm, s))))
               = butlast (tasks (snd (snd (startTaskByName clk todayStart taskName (vm, s))))) @ [t]
           \<and> length (tasks (snd (snd (startTaskByName clk todayStart taskName (vm, s))))) = length (tasks s) + 1
           \<and> name t = trim taskName"
proof -
  let ?t = "\<lparr>task_id = nextId s, name = trim taskName, url = trim [], status = Created,
            sessions = [], totalTime = 0, createdAt = clk 0,
            lastStarted = None, lastPaused = None, stoppedAt = None\<rparr>"
  let ?s1 = "s\<lparr>tasks := tasks s @ [?t], nextId := nextId s + 1\<rparr>"
  have cr: "createTask (clk 0) taskName [] s = (Inr ?t, ?s1)" by (rule createTask_ok[OF assms(2)])
  let ?s2 = "snd (startTask (\<lambda>k. clk (Suc k)) (nextId s) ?s1)"
  have st: "snd (snd (startTaskByName clk todayStart taskName (vm, s))) = ?s2"
    using assms(1) cr
    by (simp add: startTaskByName_def createAndStartTask_def split: prod.splits sum.splits option.splits)
  have ids: "map task_id (tasks ?s2) = map task_id (tasks ?s1)" by (rule startTask_ids)
  then have len: "length (tasks ?s2) = length (tasks s) + 1"
    using length_map[of task_id "tasks ?s2"] by simp
  have nm: "map name (tasks ?s2) = map name (tasks ?s1)"
  proof (cases rule: startTask_cases[of "\<lambda>k. clk (Suc k)" "nextId s" ?s1])
    case (err e s')
    with pausedWhere_names[OF err(2)] show ?thesis by simp
  next
    case (ok t i k s')
    have "(tasks s')[i := startedRecord (clk (Suc k)) t]
            = (tasks s')[i := (tasks s' ! i)\<lparr>status := Running,
                 sessions := sessions t @ [\<lparr>startTime = clk (Suc k), endTime = None, duration = 0\<rparr>],
                 lastStarted := Some (clk (Suc k))\<rparr>]"
      using ok(6) by (simp add: startedRecord_def)
    then have "map name ((tasks s')[i := startedRecord (clk (Suc k)) t]) = map name (tasks s')"
      by (simp add: map_update) (metis list_update_id map_update)
    with pausedWhere_names[OF ok(8)] ok(9) show ?thesis by simp
  qed
  from len have ne: "tasks ?s2 \<noteq> []" by auto
  have "name (last (tasks ?s2)) = last (map name (tasks ?s2))" using ne by (simp add: last_map)
  also have "\<dots> = trim taskName" by (simp add: nm)
  finally have "name (last (tasks ?s2)) = trim taskName" .
  with ne len st show ?thesis
    by (metis append_butlast_last_id)
qed

section \<open>The invariants hold in every store the operations build\<close>

text \<open>
  The hypotheses used above are invariants of the operations: they hold in the empty
  store and every operation keeps them, whether it returns or raises.
\<close>

lemma storeInv_iff:
  "storeInv s \<longleftrightarrow>
     distinct (map task_id (tasks s))
     \<and> (\<forall>t\<in>set (tasks s). task_id t < nextId s \<and> (status t = Running \<longrightarrow> lastOpen t))"
  by (auto simp: storeInv_def distinctIds_def list_all_iff)

lemma storeInv_emptyStore: "storeInv emptyStore"
  by (simp add: storeInv_iff emptyStore_def)

lemma storeInv_pausedWhere:
  assumes "pausedWhere P s s'" and "storeInv s"
  shows "storeInv s'"
proof -
  have ids: "map task_id (tasks s') = map task_id (tasks s)" by (rule pausedWhere_ids[OF assms(1)])
  have nx: "nextId s' = nextId s" using assms(1) by (simp add: pausedWhere_def)
  have len: "length (tasks s') = length (tasks s)" by (rule pausedWhere_length[OF assms(1)])
  have "task_id t' < nextId s' \<and> (status t' = Running \<longrightarrow> lastOpen t')" if "t' \<in> set (tasks s')" for t'
  proof -
    from that obtain j where j: "j < length (tasks s')" "tasks s' ! j = t'"
      by (auto simp: in_set_conv_nth)
    have st: "pausedStep P (tasks s ! j) t'" using pausedWhere_nth[OF assms(1), of j] j len by simp
    have mem: "tasks s ! j \<in> set (tasks s)" using j(1) len by simp
    with assms(2) have old: "task_id (tasks s ! j) < nextId s"
        "status (tasks s ! j) = Running \<longrightarrow> lastOpen (tasks s ! j)"
      by (auto simp: storeInv_iff)
    from st old nx show ?thesis by (auto simp: pausedStep_def)
  qed
  with ids assms(2) show ?thesis by (simp add: storeInv_iff)
qed

lemma storeInv_update:
  assumes "storeInv s" and "i < length (tasks s)" and "task_id r = task_id (tasks s ! i)"
    and "status r = Running \<longrightarrow> lastOpen r"
    and "tasks s' = (tasks s)[i := r]" and "nextId s' = nextId s"
  shows "storeInv s'"
proof -
  have "map task_id (tasks s') = (map task_id (tasks s))[i := task_id (tasks s ! i)]"
    using assms(3,5) by (simp add: map_update)
  also have "\<dots> = map task_id (tasks s)"
    using assms(2) by (metis list_update_id map_update)
  finally have ids: "map task_id (tasks s') = map task_id (tasks s)" .
  have "set (tasks s') \<subseteq> insert r (set (tasks s))"
    using assms(5) by (simp add: set_update_subset_insert)
  moreover have "task_id r < nextId s"
    using assms(1,2,3) by (simp add: storeInv_iff)
  ultimately show ?thesis using assms(1,4,6) ids by (auto simp: storeInv_iff)
qed

lemma storeInv_perform:
  assumes "storeInv s"
  shows "storeInv (perform clk op s)"
proof (cases op)
  case (OpCreate nm u)
  from createTask_store[of "clk 0" nm u s] show ?thesis
  proof
    assume "snd (createTask (clk 0) nm u s) = s"
    with assms OpCreate show ?thesis by simp
  next
    assume "\<exists>t. tasks (snd (createTask (clk 0) nm u s)) = tasks s @ [t] \<and> task_id t = nextId s
        \<and> status t = Created \<and> sessions t = [] \<and> totalTime t = 0
        \<and> nextId (snd (createTask (clk 0) nm u s)) = nextId s + 1"
    then obtain t where t: "tasks (snd (createTask (clk 0) nm u s)) = tasks s @ [t]"
      "task_id t = nextId s" "status t = Created"
      "nextId (snd (createTask (clk 0) nm u s)) = nextId s + 1" by blast
    have "nextId s \<notin> task_id ` set (tasks s)" using assms by (auto simp: storeInv_iff)
    with assms t have "storeInv (snd (createTask (clk 0) nm u s))"
      by (auto simp: storeInv_iff)
    with OpCreate show ?thesis by simp
  qed
next
  case (OpStart taskId)
  show ?thesis
  proof (cases rule: startTask_cases[of clk taskId s])
    case (err e s')
    with storeInv_pausedWhere[OF err(2) assms] OpStart show ?thesis by simp
  next
    case (ok t i k s')
    have inv': "storeInv s'" by (rule storeInv_pausedWhere[OF ok(8) assms])
    have "storeInv (s'\<lparr>tasks := (tasks s')[i := startedRecord (clk k) t], lastActiveTaskId := Some taskId\<rparr>)"
      by (rule storeInv_update[OF inv', of i "startedRecord (clk k) t"])
         (use ok(4,6) pausedWhere_length[OF ok(8)] in \<open>simp_all add: lastOpen_def\<close>)
    with ok(9) OpStart show ?thesis by simp
  qed
next
  case (OpPause taskId)
  from storeInv_pausedWhere[OF pauseTask_pausedWhere[of taskId s "clk 0"] assms] OpPause
  show ?thesis by simp
next
  case (OpStop taskId)
  from stopTask_store[of clk taskId s] show ?thesis
  proof
    assume "snd (stopTask clk taskId s) = s"
    with assms OpStop show ?thesis by simp
  next
    assume "\<exists>i r. i < length (tasks s) \<and> task_id (tasks s ! i) = taskId
        \<and> tasks (snd (stopTask clk taskId s)) = (tasks s)[i := r]
        \<and> nextId (snd (stopTask clk taskId s)) = nextId s
        \<and> (status (tasks s ! i) \<noteq> Running
              \<and> r = (tasks s ! i)\<lparr>status := Stopped, stoppedAt := Some (clk 0)\<rparr>
           \<or> status (tasks s ! i) = Running \<and> lastOpen (tasks s ! i)
              \<and> r = (pausedRecord (clk 0) (tasks s ! i))\<lparr>status := Stopped, stoppedAt := Some (clk 1)\<rparr>)"
    then obtain i r where i: "i < length (tasks s)"
      "tasks (snd (stopTask clk taskId s)) = (tasks s)[i := r]"
      "nextId (snd (stopTask clk taskId s)) = nextId s"
      "r = (tasks s ! i)\<lparr>status := Stopped, stoppedAt := Some (clk 0)\<rparr>
       \<or> r = (pausedRecord (clk 0) (tasks s ! i))\<lparr>status := Stopped, stoppedAt := Some (clk 1)\<rparr>"
      by blast
    from i(4) have "task_id r = task_id (tasks s ! i)" and "status r = Stopped" by auto
    then have "storeInv (snd (stopTask clk taskId s))"
      using storeInv_update[OF assms i(1) _ _ i(2) i(3)] by simp
    with OpStop show ?thesis by simp
  qed
next
  case (OpUnstop taskId)
  from unstopTask_store[of taskId s] show ?thesis
  proof
    assume "snd (unstopTask taskId s) = s"
    with assms OpUnstop show ?thesis by simp
  next
    assume "\<exists>i. i < length (tasks s) \<and> task_id (tasks s ! i) = taskId \<and> status (tasks s ! i) = Stopped
        \<and> tasks (snd (unstopTask taskId s)) = (tasks s)[i := (tasks s ! i)\<lparr>status := Paused, stoppedAt := None\<rparr>]
        \<and> nextId (snd (unstopTask taskId s)) = nextId s"
    then obtain i where i: "i < length (tasks s)"
      "tasks (snd (unstopTask taskId s)) = (tasks s)[i := (tasks s ! i)\<lparr>status := Paused, stoppedAt := None\<rparr>]"
      "nextId (snd (unstopTask taskId s)) = nextId s"
      by blast
    have "storeInv (snd (unstopTask taskId s))"
      by (rule storeInv_update[OF assms i(1) _ _ i(2) i(3)]) simp_all
    with OpUnstop show ?thesis by simp
  qed
qed

lemma storeInv_performAll: "storeInv s \<Longrightarrow> storeInv (performAll ops s)"
  by (induction ops arbitrary: s) (simp_all add: storeInv_perform)

lemma storeInv_reachable: "storeInv (performAll ops emptyStore)"
  by (rule storeInv_performAll[OF storeInv_emptyStore])

lemma totalTimeInv_performAll: "totalTimeInv s \<Longrightarrow> totalTimeInv (performAll ops s)"
  by (induction ops arbitrary: s) (simp_all add: totalTimeInv_perform)

lemma totalTimeInv_reachable: "totalTimeInv (performAll ops emptyStore)"
  by (rule totalTimeInv_performAll) (simp add: totalTimeInv_def emptyStore_def)

lemma distinctIds_reachable: "distinctIds (performAll ops emptyStore)"
  using storeInv_reachable[of ops] by (simp add: storeInv_def)

lemma running_lastOpen_reachable:
  assumes "getTask taskId (performAll ops emptyStore) = Some t"
  shows "status t = Running \<longrightarrow> lastOpen t"
proof -
  from assms have "t \<in> set (tasks (performAll ops emptyStore))"
    by (auto simp: getTask_def find_Some_iff)
  with storeInv_reachable[of ops] show ?thesis by (simp add: storeInv_iff)
qed

lemma filter_update_not:
  "\<not> P r \<Longrightarrow> length (filter P (xs[i := r])) \<le> length (filter P xs)"
proof (induction xs arbitrary: i)
  case Nil
  then show ?case by simp
next
  case (Cons x xs)
  show ?case
  proof (cases i)
    case 0
    with Cons.prems show ?thesis by simp
  next
    case (Suc k)
    with Cons.IH[OF Cons.prems, of k] show ?thesis by simp
  qed
qed

lemma runningCount_perform:
  assumes "distinctIds s" and "runningCount s \<le> 1"
  shows "runningCount (perform clk op s) \<le> 1"
proof (cases op)
  case (OpCreate nm u)
  from createTask_store[of "clk 0" nm u s] assms(2) OpCreate show ?thesis
    by (auto simp: runningCount_def getTasksByStatus_def)
next
  case (OpStart taskId)
  with startTask_count_le_one[OF assms, of clk taskId] show ?thesis by simp
next
  case (OpPause taskId)
  from pausedWhere_running_count[OF pauseTask_pausedWhere[of taskId s "clk 0"]] assms(2) OpPause
  show ?thesis by simp
next
  case (OpStop taskId)
  from stopTask_store[of clk taskId s] show ?thesis
  proof
    assume "snd (stopTask clk taskId s) = s"
    with assms(2) OpStop show ?thesis by simp
  next
    assume "\<exists>i r. i < length (tasks s) \<and> task_id (tasks s ! i) = taskId
        \<and> tasks (snd (stopTask clk taskId s)) = (tasks s)[i := r]
        \<and> nextId (snd (stopTask clk taskId s)) = nextId s
        \<and> (status (tasks s ! i) \<noteq> Running
              \<and> r = (tasks s ! i)\<lparr>status := Stopped, stoppedAt := Some (clk 0)\<rparr>
           \<or> status (tasks s ! i) = Running \<and> lastOpen (tasks s ! i)
              \<and> r = (pausedRecord (clk 0) (tasks s ! i))\<lparr>status := Stopped, stoppedAt := Some (clk 1)\<rparr>)"
    then obtain i r where i: "tasks (snd (stopTask clk taskId s)) = (tasks s)[i := r]"
      "r = (tasks s ! i)\<lparr>status := Stopped, stoppedAt := Some (clk 0)\<rparr>
       \<or> r = (pausedRecord (clk 0) (tasks s ! i))\<lparr>status := Stopped, stoppedAt := Some (clk 1)\<rparr>"
      by blast
    from i(2) have "\<not> status r = Running" by auto
    from filter_update_not[of "\<lambda>t. status t = Running" r "tasks s" i, OF this] i(1) assms(2) OpStop
    show ?thesis by (simp add: runningCount_def getTasksByStatus_def)
  qed
next
  case (OpUnstop taskId)
  from unstopTask_store[of taskId s] show ?thesis
  proof
    assume "snd (unstopTask taskId s) = s"
    with assms(2) OpUnstop show ?thesis by simp
  next
    assume "\<exists>i. i < length (tasks s) \<and> task_id (tasks s ! i) = taskId \<and> status (tasks s ! i) = Stopped
        \<and> tasks (snd (unstopTask taskId s)) = (tasks s)[i := (tasks s ! i)\<lparr>status := Paused, stoppedAt := None\<rparr>]
        \<and> nextId (snd (unstopTask taskId s)) = nextId s"
    then obtain i where i:
      "tasks (snd (unstopTask taskId s)) = (tasks s)[i := (tasks s ! i)\<lparr>status := Paused, stoppedAt := None\<rparr>]"
      by blast
    from filter_update_not[of "\<lambda>t. status t = Running" "(tasks s ! i)\<lparr>status := Paused, stoppedAt := None\<rparr>" "tasks s" i]
      i assms(2) OpUnstop
    show ?thesis by (simp add: runningCount_def getTasksByStatus_def)
  qed
qed

lemma runningCount_reachable: "runningCount (performAll ops emptyStore) \<le> 1"
proof -
  have "storeInv s \<Longrightarrow> runningCount s \<le> 1 \<Longrightarrow> runningCount (performAll ops s) \<le> 1" for s
  proof (induction ops arbitrary: s)
    case Nil
    then show ?case by simp
  next
    case (Cons c cs)
    have "distinctIds s" using Cons.prems(1) by (simp add: storeInv_def)
    from Cons.IH[OF storeInv_perform[OF Cons.prems(1)] runningCount_perform[OF this Cons.prems(2)]]
    show ?case by simp
  qed
  from this[OF storeInv_emptyStore] show ?thesis
    by (simp add: runningCount_def getTasksByStatus_def emptyStore_def)
qed

section \<open>The line \<open>start\<close> with an argument in the terminal control loop\<close>













end
